theory Spec2Isabelle
  imports Main
begin

section \<open>Values, documents and queue handles\<close>

text \<open>
  The library \<^verbatim>\<open>mongodb-queue.js\<close> keeps every message as one document of a
  collection. Payloads are arbitrary JavaScript values; a timestamp field holds a native
  date (milliseconds since the epoch) or, in records written by an older version, a string.
  An optional field is \<open>None\<close> when the document does not carry it. The fields
  \<^verbatim>\<open>ack\<close> and \<^verbatim>\<open>deleted\<close> have a third state: the store keeps a field whose value
  is \<^verbatim>\<open>null\<close>, and the library's own upsert writes such fields.
\<close>

datatype jsval =
    JUndefined
  | JNull
  | JNumber int
  | JString string
  | JArray "jsval list"
  | JObject "(string \<times> jsval) list"

datatype stamp = Date int | Text string

datatype 'a field = Absent | Null | Present 'a

record doc =
  doc_id :: nat
  doc_payload :: jsval
  doc_visible :: "stamp option"
  doc_ack :: "string field"
  doc_tries :: "nat option"
  doc_deleted :: "stamp field"
  doc_debounce :: "string option"

text \<open>The external representation built by \<^verbatim>\<open>get\<close>: \<^verbatim>\<open>{id, ack, payload, tries}\<close>.\<close>

record msg =
  msg_id :: string
  msg_ack :: "string field"
  msg_payload :: jsval
  msg_tries :: "nat option"

text \<open>
  An error made with \<^verbatim>\<open>new Error(message)\<close>, or the \<^verbatim>\<open>TypeError\<close> the engine raises
  when a property of \<^verbatim>\<open>undefined\<close> is read or a value that is no function is called;
  the string of a \<^verbatim>\<open>TypeError\<close> names the expression, the engine's wording is not
  embedded.
\<close>

datatype error = Error string | TypeError string

text \<open>
  How a call ends: an exception thrown to the caller synchronously, an exception raised
  later, in the handler of the store's reply, where no caller catches it, an error handed
  to the callback, or a value handed to the callback.
\<close>

datatype 'a outcome = Thrown error | Uncaught error | Failed error | Returned 'a

text \<open>
  A positional argument of \<^verbatim>\<open>add\<close>, \<^verbatim>\<open>get\<close> or \<^verbatim>\<open>ping\<close> after the first:
  nothing (left out, \<^verbatim>\<open>undefined\<close> or \<^verbatim>\<open>null\<close>), a function, or an object, with the
  options it carries (\<open>Bag None\<close> is an object with none of them, as \<^verbatim>\<open>{}\<close>). The
  pair is the second and the third argument of the call.
\<close>

datatype 'o arg = Nothing | Fn | Bag "'o option"

type_synonym 'o args = "'o arg \<times> 'o arg"

datatype retries = Finite int | Infinity

datatype client = MongoClient

datatype queue =
  Queue (name: string) (visibility: int) (delay: int) (cleanAfterSeconds: int)
    (deadQueue: "queue option") (maxRetries: retries)

record QueueOptions =
  opt_visibility :: "int option"
  opt_delay :: "int option"
  opt_deadQueue :: "queue option"
  opt_maxRetries :: "retries option"
  opt_cleanAfterSeconds :: "int option"

record AddOptions =
  add_delay :: "int option"
  add_debounce :: "string option"

record GetOptions =
  get_visibility :: "int option"

record PingOptions =
  ping_visibility :: "int option"

text \<open>
  The store: the collections of the database by name, and the next identifier it hands
  out. Identifiers grow with every insert, as the \<^verbatim>\<open>_id\<close> of the store does.
\<close>

record store =
  collections :: "string \<Rightarrow> doc list"
  next_oid :: nat

section \<open>Helpers of the source\<close>

text \<open>
  \<^verbatim>\<open>if ( !callback ) { callback = opts; opts = {} }\<close>: the options and the callback
  a call works with.
\<close>

definition arguments :: "'o args \<Rightarrow> 'o arg \<times> 'o arg" where
  "arguments given = (if snd given = Nothing then (Bag None, fst given) else (fst given, snd given))"

text \<open>What reading a field of the options finds: a function has none of them.\<close>

fun fields_of :: "'o arg \<Rightarrow> 'o option" where
  "fields_of (Bag b) = b"
| "fields_of Fn = None"
| "fields_of Nothing = None"

text \<open>
  The two calls the type declaration allows: \<^verbatim>\<open>f(callback)\<close> and
  \<^verbatim>\<open>f(opts, callback)\<close> with an options object.
\<close>

definition args_of :: "'o option \<Rightarrow> 'o args" where
  "args_of opts = (case opts of None \<Rightarrow> (Fn, Nothing) | Some given \<Rightarrow> (Bag (Some given), Fn))"

text \<open>
  A call of the callback, which is a function or not: in the body of the operation, where
  the exception reaches the caller, or in the handler of the store's reply.
\<close>

definition call_now :: "bool \<Rightarrow> 'a outcome \<Rightarrow> 'a outcome" where
  "call_now callback result = (if callback then result else Thrown (TypeError ''callback''))"

definition call_later :: "bool \<Rightarrow> 'a outcome \<Rightarrow> 'a outcome" where
  "call_later callback result = (if callback then result else Uncaught (TypeError ''callback''))"

text \<open>\<^verbatim>\<open>nowPlusSecs(secs)\<close>, with the clock reading \<^verbatim>\<open>Date.now()\<close> made a parameter.\<close>

definition nowPlusSecs :: "int \<Rightarrow> int \<Rightarrow> int" where
  "nowPlusSecs clock secs = clock + secs * 1000"

text \<open>\<^verbatim>\<open>a || b\<close> for an optional number \<open>a\<close>: absent and \<open>0\<close> are falsy.\<close>

definition num_or :: "int option \<Rightarrow> int \<Rightarrow> int" where
  "num_or a b = (case a of None \<Rightarrow> b | Some n \<Rightarrow> if n \<noteq> 0 then n else b)"

text \<open>\<^verbatim>\<open>opts.maxRetries || d\<close>: a retry budget of \<open>0\<close> is falsy.\<close>

definition retries_or :: "retries option \<Rightarrow> retries \<Rightarrow> retries" where
  "retries_or a b = (case a of None \<Rightarrow> b | Some (Finite n) \<Rightarrow> if n \<noteq> 0 then Finite n else b
     | Some Infinity \<Rightarrow> Infinity)"

text \<open>\<^verbatim>\<open>msg.tries > self.maxRetries\<close>; a comparison with \<^verbatim>\<open>undefined\<close> is false.\<close>

fun exceeds :: "nat option \<Rightarrow> retries \<Rightarrow> bool" where
  "exceeds None r = False"
| "exceeds (Some n) Infinity = False"
| "exceeds (Some n) (Finite m) = (m < int n)"

text \<open>The string of an identifier (\<^verbatim>\<open>'' + _id\<close>): 24 hexadecimal digits.\<close>

fun hex_digits :: "nat \<Rightarrow> nat \<Rightarrow> string" where
  "hex_digits 0 n = []"
| "hex_digits (Suc k) n = hex_digits k (n div 16) @ [''0123456789abcdef'' ! (n mod 16)]"

definition oid_string :: "nat \<Rightarrow> string" where
  "oid_string n = hex_digits 24 n"

text \<open>An entry of \<^verbatim>\<open>ids\<close> in \<^verbatim>\<open>add\<close>: an identifier of the store or a string.\<close>

datatype slot = Oid nat | Literal string

fun slot_string :: "slot \<Rightarrow> string" where
  "slot_string (Oid n) = oid_string n"
| "slot_string (Literal s) = s"

text \<open>\<^verbatim>\<open>'' + ids\<close> for an array: the elements' strings joined by commas.\<close>

fun join_commas :: "string list \<Rightarrow> string" where
  "join_commas [] = []"
| "join_commas [x] = x"
| "join_commas (x # y # ys) = x @ '','' @ join_commas (y # ys)"

section \<open>The store's operations\<close>

text \<open>
  The store is the library's collaborator, not part of its source. Its operations are
  modelled as the store's documentation describes them: a filter is a
  conjunction of conditions on fields (\<^verbatim>\<open>field: null\<close> holds when the field is
  absent or \<^verbatim>\<open>null\<close>, \<^verbatim>\<open>$exists\<close> when it is there, \<^verbatim>\<open>null\<close> or not,
  \<^verbatim>\<open>$lte\<close> and \<^verbatim>\<open>$gt\<close> compare native dates only, \<^verbatim>\<open>$type: 2\<close> holds for
  strings); an update is a list of modifiers; \<^verbatim>\<open>findOneAndUpdate\<close> changes one
  matching document and returns it as updated; \<^verbatim>\<open>bulkWrite\<close> runs its operations in
  order. A request the store does not answer with a result fails as a whole: the error
  the store reports is an input of the operation (\<open>fault\<close>) and the store is then
  unchanged. The store keeps no indexes here: \<^verbatim>\<open>createIndexes\<close> asks for them and
  changes no document, and a request an index refuses is a fault. The tokens
  \<^verbatim>\<open>id()\<close> draws and the readings of the clock are inputs too.
\<close>

datatype cond =
    IdEq nat
  | AckEq string
  | AckNull
  | AckExists
  | DeletedNull
  | DeletedExists
  | DeletedType2
  | VisibleLte int
  | VisibleGt int
  | VisibleType2
  | DebounceEq string

fun stamp_lte :: "stamp option \<Rightarrow> int \<Rightarrow> bool" where
  "stamp_lte (Some (Date v)) t = (v \<le> t)"
| "stamp_lte (Some (Text x)) t = False"
| "stamp_lte None t = False"

fun stamp_gt :: "stamp option \<Rightarrow> int \<Rightarrow> bool" where
  "stamp_gt (Some (Date v)) t = (t < v)"
| "stamp_gt (Some (Text x)) t = False"
| "stamp_gt None t = False"

fun is_text :: "stamp option \<Rightarrow> bool" where
  "is_text (Some (Text x)) = True"
| "is_text (Some (Date v)) = False"
| "is_text None = False"

fun field_text :: "stamp field \<Rightarrow> bool" where
  "field_text (Present (Text x)) = True"
| "field_text (Present (Date v)) = False"
| "field_text Null = False"
| "field_text Absent = False"

fun field_null :: "'a field \<Rightarrow> bool" where
  "field_null Absent = True"
| "field_null Null = True"
| "field_null (Present v) = False"

fun field_exists :: "'a field \<Rightarrow> bool" where
  "field_exists Absent = False"
| "field_exists Null = True"
| "field_exists (Present v) = True"

fun field_present :: "'a field \<Rightarrow> bool" where
  "field_present Absent = False"
| "field_present Null = False"
| "field_present (Present v) = True"

fun holds :: "cond \<Rightarrow> doc \<Rightarrow> bool" where
  "holds (IdEq i) d = (doc_id d = i)"
| "holds (AckEq a) d = (doc_ack d = Present a)"
| "holds AckNull d = field_null (doc_ack d)"
| "holds AckExists d = field_exists (doc_ack d)"
| "holds DeletedNull d = field_null (doc_deleted d)"
| "holds DeletedExists d = field_exists (doc_deleted d)"
| "holds DeletedType2 d = field_text (doc_deleted d)"
| "holds (VisibleLte t) d = stamp_lte (doc_visible d) t"
| "holds (VisibleGt t) d = stamp_gt (doc_visible d) t"
| "holds VisibleType2 d = is_text (doc_visible d)"
| "holds (DebounceEq k) d = (doc_debounce d = Some k)"

type_synonym query = "cond list"

definition matches :: "query \<Rightarrow> doc \<Rightarrow> bool" where
  "matches q d = list_all (\<lambda>c. holds c d) q"

text \<open>\<^verbatim>\<open>$or\<close> of several filters.\<close>

definition matches_or :: "query list \<Rightarrow> doc \<Rightarrow> bool" where
  "matches_or qs d = list_ex (\<lambda>q. matches q d) qs"

datatype modifier =
    IncTries nat
  | SetAck string
  | SetVisible stamp
  | SetDeleted stamp
  | SetPayload jsval

fun modify :: "modifier \<Rightarrow> doc \<Rightarrow> doc" where
  "modify (IncTries k) d =
     d\<lparr>doc_tries := Some (case doc_tries d of None \<Rightarrow> k | Some n \<Rightarrow> n + k)\<rparr>"
| "modify (SetAck a) d = d\<lparr>doc_ack := Present a\<rparr>"
| "modify (SetVisible v) d = d\<lparr>doc_visible := Some v\<rparr>"
| "modify (SetDeleted v) d = d\<lparr>doc_deleted := Present v\<rparr>"
| "modify (SetPayload p) d = d\<lparr>doc_payload := p\<rparr>"

type_synonym update = "modifier list"

definition apply_update :: "update \<Rightarrow> doc \<Rightarrow> doc" where
  "apply_update u d = fold modify u d"

text \<open>A document with an identifier and nothing else.\<close>

definition blank :: "nat \<Rightarrow> doc" where
  "blank i = \<lparr>doc_id = i, doc_payload = JUndefined, doc_visible = None, doc_ack = Absent,
     doc_tries = None, doc_deleted = Absent, doc_debounce = None\<rparr>"

text \<open>
  The document an upsert inserts starts from the equality clauses of its filter, and
  \<^verbatim>\<open>field: null\<close> is one: the document gets the field with the value \<^verbatim>\<open>null\<close>.
  The other conditions add no field.
\<close>

fun seed :: "cond \<Rightarrow> doc \<Rightarrow> doc" where
  "seed (IdEq i) d = d\<lparr>doc_id := i\<rparr>"
| "seed (AckEq a) d = d\<lparr>doc_ack := Present a\<rparr>"
| "seed AckNull d = d\<lparr>doc_ack := Null\<rparr>"
| "seed DeletedNull d = d\<lparr>doc_deleted := Null\<rparr>"
| "seed (DebounceEq k) d = d\<lparr>doc_debounce := Some k\<rparr>"
| "seed AckExists d = d"
| "seed DeletedExists d = d"
| "seed DeletedType2 d = d"
| "seed (VisibleLte t) d = d"
| "seed (VisibleGt t) d = d"
| "seed VisibleType2 d = d"

definition upsert_doc :: "query \<Rightarrow> update \<Rightarrow> nat \<Rightarrow> doc" where
  "upsert_doc q u i = apply_update u (fold seed q (blank i))"

fun find_first :: "('a \<Rightarrow> bool) \<Rightarrow> 'a list \<Rightarrow> nat option" where
  "find_first P [] = None"
| "find_first P (x # xs) = (if P x then Some 0 else map_option Suc (find_first P xs))"

datatype sort_spec = Natural | IdAscending

text \<open>The position of the document a filter selects under a sort order.\<close>

fun select :: "query \<Rightarrow> sort_spec \<Rightarrow> doc list \<Rightarrow> nat option" where
  "select q Natural docs = find_first (matches q) docs"
| "select q IdAscending docs =
     (case filter (matches q) docs of
        [] \<Rightarrow> None
      | m # ms \<Rightarrow>
          find_first (\<lambda>d. matches q d \<and> doc_id d = fold min (map doc_id ms) (doc_id m)) docs)"

text \<open>\<^verbatim>\<open>findOneAndUpdate(query, update, {sort, returnOriginal: false})\<close>.\<close>

definition findOneAndUpdate ::
  "query \<Rightarrow> update \<Rightarrow> sort_spec \<Rightarrow> doc list \<Rightarrow> doc list \<times> doc option" where
  "findOneAndUpdate q u srt docs =
     (case select q srt docs of
        None \<Rightarrow> (docs, None)
      | Some i \<Rightarrow> (docs[i := apply_update u (docs ! i)], Some (apply_update u (docs ! i))))"

definition count :: "query \<Rightarrow> doc list \<Rightarrow> nat" where
  "count q docs = length (filter (matches q) docs)"

definition deleteMany :: "query \<Rightarrow> doc list \<Rightarrow> doc list \<times> nat" where
  "deleteMany q docs = (filter (\<lambda>d. \<not> matches q d) docs, count q docs)"

datatype write_op =
    InsertOne update
  | UpdateOne query update bool

record bulk_result =
  insertedIds :: "nat \<Rightarrow> nat option"
  upsertedIds :: "nat \<Rightarrow> nat option"
  modifiedCount :: nat

definition no_result :: bulk_result where
  "no_result = \<lparr>insertedIds = (\<lambda>i. None), upsertedIds = (\<lambda>i. None), modifiedCount = 0\<rparr>"

text \<open>
  One operation of a bulk write, at its index in the list. An insert and an upsert
  that matched nothing append a document under the next identifier.
\<close>

fun bulk_step :: "write_op \<Rightarrow> nat \<Rightarrow> (doc list \<times> nat) \<times> bulk_result \<Rightarrow> (doc list \<times> nat) \<times> bulk_result" where
  "bulk_step (InsertOne document) index ((docs, next), res) =
     ((docs @ [apply_update document (blank next)], Suc next),
      res\<lparr>insertedIds := (insertedIds res)(index \<mapsto> next)\<rparr>)"
| "bulk_step (UpdateOne q u upsert) index ((docs, next), res) =
     (case find_first (matches q) docs of
        Some i \<Rightarrow>
          ((docs[i := apply_update u (docs ! i)], next),
           res\<lparr>modifiedCount :=
             modifiedCount res + (if apply_update u (docs ! i) = docs ! i then 0 else 1)\<rparr>)
      | None \<Rightarrow>
          if upsert
          then ((docs @ [upsert_doc q u next], Suc next),
                res\<lparr>upsertedIds := (upsertedIds res)(index \<mapsto> next)\<rparr>)
          else ((docs, next), res))"

fun bulk_from :: "nat \<Rightarrow> write_op list \<Rightarrow> (doc list \<times> nat) \<times> bulk_result \<Rightarrow> (doc list \<times> nat) \<times> bulk_result" where
  "bulk_from index [] st = st"
| "bulk_from index (op # ops) st = bulk_from (Suc index) ops (bulk_step op index st)"

definition bulkWrite :: "write_op list \<Rightarrow> doc list \<times> nat \<Rightarrow> (doc list \<times> nat) \<times> bulk_result" where
  "bulkWrite ops st = bulk_from 0 ops (st, no_result)"

definition with_collection :: "store \<Rightarrow> string \<Rightarrow> doc list \<Rightarrow> store" where
  "with_collection s c docs = s\<lparr>collections := (collections s)(c := docs)\<rparr>"

section \<open>The queue\<close>

text \<open>
  The constructor. A missing client or a missing (empty) name is thrown; a missing
  options bag is the empty one.
\<close>

definition no_options :: QueueOptions where
  "no_options = \<lparr>opt_visibility = None, opt_delay = None, opt_deadQueue = None,
     opt_maxRetries = None, opt_cleanAfterSeconds = None\<rparr>"

definition new_Queue :: "client option \<Rightarrow> string option \<Rightarrow> QueueOptions option \<Rightarrow> queue outcome" where
  "new_Queue mongoDbClient nm options =
     (if mongoDbClient = None
      then Thrown (Error ''mongodb-queue: provide a mongodb.MongoClient'')
      else if nm = None \<or> nm = Some []
      then Thrown (Error ''mongodb-queue: provide a queue name'')
      else
        let opts = (case options of None \<Rightarrow> no_options | Some given \<Rightarrow> given) in
        Returned (Queue (case nm of Some n \<Rightarrow> n | None \<Rightarrow> [])
          (num_or (opt_visibility opts) 30)
          (num_or (opt_delay opts) 0)
          (case opt_cleanAfterSeconds opts of
             None \<Rightarrow> - 1
           | Some c \<Rightarrow> if 0 \<le> c then c else - 1)
          (opt_deadQueue opts)
          (case opt_deadQueue opts of
             Some dq \<Rightarrow> retries_or (opt_maxRetries opts) (Finite 5)
           | None \<Rightarrow> retries_or (opt_maxRetries opts) Infinity)))"

subsection \<open>createIndexes\<close>


subsection \<open>add\<close>

text \<open>
  The three variables \<^verbatim>\<open>delay\<close>, \<^verbatim>\<open>visible\<close> and \<^verbatim>\<open>debounce\<close> of
  \<^verbatim>\<open>add\<close>, from the fields the options carry (\<open>None\<close>: no field at all).
  \<open>clock\<close> is the reading of the clock the call makes.
\<close>

definition effective_delay :: "queue \<Rightarrow> AddOptions option \<Rightarrow> int" where
  "effective_delay q opts =
     num_or (case opts of None \<Rightarrow> None | Some given \<Rightarrow> add_delay given) (delay q)"

definition add_visible :: "queue \<Rightarrow> AddOptions option \<Rightarrow> int \<Rightarrow> stamp" where
  "add_visible q opts clock =
     (if effective_delay q opts \<noteq> 0
      then Date (nowPlusSecs clock (effective_delay q opts))
      else Date clock)"

definition debounce_key :: "AddOptions option \<Rightarrow> string option" where
  "debounce_key opts =
     (case opts of
        None \<Rightarrow> None
      | Some given \<Rightarrow>
          (case add_debounce given of
             None \<Rightarrow> None
           | Some k \<Rightarrow> if k \<noteq> [] then Some k else None))"

definition add_operation :: "string option \<Rightarrow> stamp \<Rightarrow> jsval \<Rightarrow> write_op" where
  "add_operation debounce visible payload =
     (case debounce of
        Some k \<Rightarrow>
          UpdateOne [AckNull, DeletedNull, DebounceEq k]
            [SetVisible visible, SetPayload payload] True
      | None \<Rightarrow> InsertOne [SetVisible visible, SetPayload payload])"

fun map_index :: "(nat \<Rightarrow> 'a \<Rightarrow> 'b) \<Rightarrow> nat \<Rightarrow> 'a list \<Rightarrow> 'b list" where
  "map_index f index [] = []"
| "map_index f index (x # xs) = f index x # map_index f (Suc index) xs"

definition id_of_slot :: "bulk_result \<Rightarrow> nat \<Rightarrow> slot" where
  "id_of_slot result index =
     (case insertedIds result index of
        Some i \<Rightarrow> Oid i
      | None \<Rightarrow>
          (case upsertedIds result index of
             Some i \<Rightarrow> Oid i
           | None \<Rightarrow> Literal ''(debounced)''))"

text \<open>
  \<^verbatim>\<open>add(payload, opts, callback)\<close>. \<open>given\<close> holds the second and third argument,
  \<open>fault\<close> the error of the store's \<^verbatim>\<open>bulkWrite\<close>, if it reports one. Reading
  \<^verbatim>\<open>opts.delay\<close> of no object throws; the callback of the empty payload is called in
  the body of \<^verbatim>\<open>add\<close>, the other two in the handler of the store's reply.
\<close>

definition Queue_add :: "queue \<Rightarrow> jsval \<Rightarrow> AddOptions args \<Rightarrow> error option \<Rightarrow> int \<Rightarrow> store \<Rightarrow> jsval outcome \<times> store" where
  "Queue_add q payload given fault clock s =
     (let opts = fst (arguments given);
          callback = (snd (arguments given) = Fn)
      in
        if opts = Nothing then (Thrown (TypeError ''opts.delay''), s)
        else
          let visible = add_visible q (fields_of opts) clock;
              debounce = debounce_key (fields_of opts);
              justOne = (case payload of JArray elems \<Rightarrow> False | _ \<Rightarrow> True);
              payloads = (case payload of JArray elems \<Rightarrow> elems | _ \<Rightarrow> [payload])
          in
            if length payloads \<le> 0
            then (call_now callback
                    (Failed (Error ''Queue.add(): Array payload length must be greater than 0'')), s)
            else
              (case fault of
                 Some err \<Rightarrow> (call_later callback (Failed err), s)
               | None \<Rightarrow>
                   let operations = map (add_operation debounce visible) payloads;
                       written = bulkWrite operations (collections s (name q), next_oid s);
                       ids = map_index (\<lambda>index p. id_of_slot (snd written) index) 0 payloads;
                       s' = (with_collection s (name q) (fst (fst written)))
                              \<lparr>next_oid := snd (fst written)\<rparr>
                   in
                     if justOne
                     then (call_later callback (Returned (JString (slot_string (hd ids)))), s')
                     else (call_later callback
                             (Returned (JString (join_commas (map slot_string ids)))), s')))"

subsection \<open>ping and ack\<close>

text \<open>
  \<open>clock\<close> is the reading of \<^verbatim>\<open>now()\<close> in the filter, \<open>clock'\<close> the later reading
  in the update; \<open>fault\<close> is the error of the store's \<^verbatim>\<open>findOneAndUpdate\<close>, if it
  reports one. \<^verbatim>\<open>ack\<close> takes the token and the callback, which is a function or not.
\<close>

definition Queue_ping :: "queue \<Rightarrow> string \<Rightarrow> PingOptions args \<Rightarrow> error option \<Rightarrow> int \<Rightarrow> int \<Rightarrow> store \<Rightarrow> string outcome \<times> store" where
  "Queue_ping q token given fault clock clock' s =
     (let opts = fst (arguments given);
          callback = (snd (arguments given) = Fn)
      in
        if opts = Nothing then (Thrown (TypeError ''opts.visibility''), s)
        else
          (case fault of
             Some err \<Rightarrow> (call_later callback (Failed err), s)
           | None \<Rightarrow>
               let vis = num_or (case fields_of opts of None \<Rightarrow> None
                                 | Some bag \<Rightarrow> ping_visibility bag) (visibility q);
                   found = findOneAndUpdate [AckEq token, VisibleGt clock, DeletedNull]
                             [SetVisible (Date (nowPlusSecs clock' vis))] Natural
                             (collections s (name q))
               in
                 case snd found of
                   None \<Rightarrow>
                     (call_later callback
                        (Failed (Error (''Queue.ping(): Unidentified ack  : '' @ token))),
                      with_collection s (name q) (fst found))
                 | Some d \<Rightarrow>
                     (call_later callback (Returned (oid_string (doc_id d))),
                      with_collection s (name q) (fst found))))"

definition Queue_ack :: "queue \<Rightarrow> string \<Rightarrow> bool \<Rightarrow> error option \<Rightarrow> int \<Rightarrow> int \<Rightarrow> store \<Rightarrow> string outcome \<times> store" where
  "Queue_ack q token callback fault clock clock' s =
     (case fault of
        Some err \<Rightarrow> (call_later callback (Failed err), s)
      | None \<Rightarrow>
          let found = findOneAndUpdate [AckEq token, VisibleGt clock, DeletedNull]
                        [SetDeleted (Date clock')] Natural (collections s (name q))
          in
            case snd found of
              None \<Rightarrow>
                (call_later callback
                   (Failed (Error (''Queue.ack(): Unidentified ack : '' @ token))),
                 with_collection s (name q) (fst found))
            | Some d \<Rightarrow>
                (call_later callback (Returned (oid_string (doc_id d))),
                 with_collection s (name q) (fst found)))"

subsection \<open>get\<close>

text \<open>
  What one round trip of \<^verbatim>\<open>get\<close> reads from its environment: the clock in the
  filter, the token \<^verbatim>\<open>id()\<close> mints, the clock in the update, the clock when the
  message is added to the dead queue, the two readings of the \<^verbatim>\<open>ack\<close> that retires
  an over-retried message, and the error of each of the three requests to the store, if
  it reports one. \<^verbatim>\<open>get\<close> calls itself after it retires a message, once per element
  of the list; with no element left it has not returned.
\<close>

record round =
  claim_clock :: int
  claim_token :: string
  lease_clock :: int
  dead_clock :: int
  ack_clock :: int
  ack_stamp :: int
  claim_fault :: "error option"
  dead_fault :: "error option"
  ack_fault :: "error option"

definition external :: "doc \<Rightarrow> msg" where
  "external d = \<lparr>msg_id = oid_string (doc_id d), msg_ack = doc_ack d,
     msg_payload = doc_payload d, msg_tries = doc_tries d\<rparr>"

text \<open>The message as the payload handed to the dead queue.\<close>

definition msg_value :: "msg \<Rightarrow> jsval" where
  "msg_value m = JObject
     [(''id'', JString (msg_id m)),
      (''ack'', case msg_ack m of Absent \<Rightarrow> JUndefined | Null \<Rightarrow> JNull | Present a \<Rightarrow> JString a),
      (''payload'', msg_payload m),
      (''tries'', case msg_tries m of None \<Rightarrow> JUndefined | Some n \<Rightarrow> JNumber (int n))]"

text \<open>
  The \<^verbatim>\<open>findOneAndUpdate\<close> of \<^verbatim>\<open>get\<close>, with its query, sort and update; \<open>opts\<close>
  are the fields the options carry.
\<close>

definition get_claim :: "queue \<Rightarrow> GetOptions option \<Rightarrow> int \<Rightarrow> string \<Rightarrow> int \<Rightarrow> doc list \<Rightarrow> doc list \<times> doc option" where
  "get_claim q opts clock token clock' docs =
     (let vis = num_or (case opts of None \<Rightarrow> None | Some given \<Rightarrow> get_visibility given)
                  (visibility q)
      in findOneAndUpdate [DeletedNull, VisibleLte clock]
           [IncTries 1, SetAck token, SetVisible (Date (nowPlusSecs clock' vis))]
           IdAscending docs)"

text \<open>
  \<^verbatim>\<open>get(opts, callback)\<close>: what the caller observes, in order, and the store
  afterwards. Reading \<^verbatim>\<open>opts.visibility\<close> of no object throws before any request.
  Every other entry is a call of the callback in the handler of a reply;
  \<open>Returned None\<close> is the call \<^verbatim>\<open>callback()\<close>. With a dead queue the branch returns
  after it has started the chain add, ack, get; without one the \<^verbatim>\<open>ack\<close> is started
  and control falls through to \<^verbatim>\<open>callback(null, msg)\<close>. The recursive call is
  \<^verbatim>\<open>self.get(callback)\<close>, the callback in the place of the options. A claimed
  document always carries the token just set, so the case of a message without one is
  never taken.
\<close>

fun Queue_get :: "queue \<Rightarrow> GetOptions args \<Rightarrow> round list \<Rightarrow> store \<Rightarrow> (msg option outcome list \<times> store) option" where
  "Queue_get q given [] s =
     (if fst (arguments given) = Nothing
      then Some ([Thrown (TypeError ''opts.visibility'')], s)
      else None)"
| "Queue_get q given (r # rs) s =
     (let opts = fst (arguments given);
          callback = (snd (arguments given) = Fn)
      in
        if opts = Nothing then Some ([Thrown (TypeError ''opts.visibility'')], s)
        else
          (case claim_fault r of
             Some err \<Rightarrow> Some ([call_later callback (Failed err)], s)
           | None \<Rightarrow>
               (let found = get_claim q (fields_of opts) (claim_clock r) (claim_token r)
                              (lease_clock r) (collections s (name q));
                    s1 = with_collection s (name q) (fst found)
                in
                  case snd found of
                    None \<Rightarrow> Some ([call_later callback (Returned None)], s1)
                  | Some d \<Rightarrow>
                      if exceeds (msg_tries (external d)) (maxRetries q)
                      then
                        (case msg_ack (external d) of
                           Absent \<Rightarrow> None
                         | Null \<Rightarrow> None
                         | Present token \<Rightarrow>
                             (case deadQueue q of
                                Some dq \<Rightarrow>
                                  (case Queue_add dq (msg_value (external d)) (Fn, Nothing)
                                          (dead_fault r) (dead_clock r) s1 of
                                     (Thrown e, s2) \<Rightarrow> Some ([Thrown e], s2)
                                   | (Uncaught e, s2) \<Rightarrow> Some ([Uncaught e], s2)
                                   | (Failed e, s2) \<Rightarrow> Some ([call_later callback (Failed e)], s2)
                                   | (Returned added, s2) \<Rightarrow>
                                       (case Queue_ack q token True (ack_fault r) (ack_clock r)
                                               (ack_stamp r) s2 of
                                          (Thrown e, s3) \<Rightarrow> Some ([Thrown e], s3)
                                        | (Uncaught e, s3) \<Rightarrow> Some ([Uncaught e], s3)
                                        | (Failed e, s3) \<Rightarrow>
                                            Some ([call_later callback (Failed e)], s3)
                                        | (Returned acked, s3) \<Rightarrow>
                                            Queue_get q (snd (arguments given), Nothing) rs s3))
                              | None \<Rightarrow>
                                  (case Queue_ack q token True (ack_fault r) (ack_clock r)
                                          (ack_stamp r) s1 of
                                     (Thrown e, s2) \<Rightarrow>
                                       Some ([call_later callback (Returned (Some (external d))),
                                              Thrown e], s2)
                                   | (Uncaught e, s2) \<Rightarrow>
                                       Some ([call_later callback (Returned (Some (external d))),
                                              Uncaught e], s2)
                                   | (Failed e, s2) \<Rightarrow>
                                       Some ([call_later callback (Returned (Some (external d))),
                                              call_later callback (Failed e)], s2)
                                   | (Returned acked, s2) \<Rightarrow>
                                       (case Queue_get q (snd (arguments given), Nothing) rs s2 of
                                          None \<Rightarrow> None
                                        | Some (calls, s3) \<Rightarrow>
                                            Some (call_later callback (Returned (Some (external d)))
                                                    # calls, s3)))))
                      else Some ([call_later callback (Returned (Some (external d)))], s1))))"

subsection \<open>Maintenance and migration\<close>

text \<open>
  Each counter is one request to the store and one call of the callback in the handler
  of the reply. \<^verbatim>\<open>clean\<close> hands its callback to the store, which is called with the
  error or with the number of documents removed.
\<close>

definition Queue_clean :: "queue \<Rightarrow> error option \<Rightarrow> store \<Rightarrow> nat outcome \<times> store" where
  "Queue_clean q fault s =
     (case fault of
        Some err \<Rightarrow> (Failed err, s)
      | None \<Rightarrow>
          let removed = deleteMany [DeletedExists] (collections s (name q))
          in (Returned (snd removed), with_collection s (name q) (fst removed)))"

definition Queue_total :: "queue \<Rightarrow> bool \<Rightarrow> error option \<Rightarrow> store \<Rightarrow> nat outcome" where
  "Queue_total q callback fault s =
     (case fault of
        Some err \<Rightarrow> call_later callback (Failed err)
      | None \<Rightarrow> call_later callback (Returned (length (collections s (name q)))))"

definition Queue_size :: "queue \<Rightarrow> bool \<Rightarrow> error option \<Rightarrow> int \<Rightarrow> store \<Rightarrow> nat outcome" where
  "Queue_size q callback fault clock s =
     (case fault of
        Some err \<Rightarrow> call_later callback (Failed err)
      | None \<Rightarrow>
          call_later callback
            (Returned (count [DeletedNull, VisibleLte clock] (collections s (name q)))))"

definition Queue_inFlight :: "queue \<Rightarrow> bool \<Rightarrow> error option \<Rightarrow> int \<Rightarrow> store \<Rightarrow> nat outcome" where
  "Queue_inFlight q callback fault clock s =
     (case fault of
        Some err \<Rightarrow> call_later callback (Failed err)
      | None \<Rightarrow>
          call_later callback
            (Returned (count [AckExists, VisibleGt clock, DeletedNull] (collections s (name q)))))"

definition Queue_done :: "queue \<Rightarrow> bool \<Rightarrow> error option \<Rightarrow> store \<Rightarrow> nat outcome" where
  "Queue_done q callback fault s =
     (case fault of
        Some err \<Rightarrow> call_later callback (Failed err)
      | None \<Rightarrow> call_later callback (Returned (count [DeletedExists] (collections s (name q)))))"

text \<open>
  \<^verbatim>\<open>migrate\<close>: a \<^verbatim>\<open>find\<close> and, when it found a record to rewrite, a
  \<^verbatim>\<open>bulkWrite\<close>, each of which may fail. \<open>parse\<close> is \<^verbatim>\<open>new Date(string)\<close>, a
  parameter. The result is \<open>None\<close> for the call \<^verbatim>\<open>callback()\<close> made when nothing is
  to be rewritten.
\<close>

definition addOperation :: "(string \<Rightarrow> int) \<Rightarrow> doc \<Rightarrow> write_op" where
  "addOperation parse document =
     UpdateOne [IdEq (doc_id document)]
       ((case doc_deleted document of
           Present (Text t) \<Rightarrow> [SetDeleted (Date (parse t))]
         | _ \<Rightarrow> [])
        @ (case doc_visible document of
             Some (Text t) \<Rightarrow> [SetVisible (Date (parse t))]
           | _ \<Rightarrow> []))
       False"

definition Queue_migrate :: "queue \<Rightarrow> bool \<Rightarrow> error option \<Rightarrow> error option \<Rightarrow> (string \<Rightarrow> int) \<Rightarrow> store \<Rightarrow> nat option outcome \<times> store" where
  "Queue_migrate q callback find_fault write_fault parse s =
     (case find_fault of
        Some err \<Rightarrow> (call_later callback (Failed err), s)
      | None \<Rightarrow>
          let operations = map (addOperation parse)
                (filter (matches_or [[DeletedType2], [VisibleType2]]) (collections s (name q)))
          in
            if length operations \<le> 0 then (call_later callback (Returned None), s)
            else
              (case write_fault of
                 Some err \<Rightarrow> (call_later callback (Failed err), s)
               | None \<Rightarrow>
                   let written = bulkWrite operations (collections s (name q), next_oid s)
                   in (call_later callback (Returned (Some (modifiedCount (snd written)))),
                       (with_collection s (name q) (fst (fst written)))
                         \<lparr>next_oid := snd (fst written)\<rparr>)))"

subsection \<open>Sequences of operations\<close>

datatype call =
    Add queue jsval "AddOptions args" "error option" int
  | Get queue "GetOptions args" "round list"
  | Ping queue string "PingOptions args" "error option" int int
  | Ack queue string bool "error option" int int
  | Migrate queue bool "error option" "error option" "string \<Rightarrow> int"

fun step :: "call \<Rightarrow> store \<Rightarrow> store option" where
  "step (Add q payload given fault clock) s = Some (snd (Queue_add q payload given fault clock s))"
| "step (Get q given rounds) s = map_option snd (Queue_get q given rounds s)"
| "step (Ping q token given fault clock clock') s =
     Some (snd (Queue_ping q token given fault clock clock' s))"
| "step (Ack q token callback fault clock clock') s =
     Some (snd (Queue_ack q token callback fault clock clock' s))"
| "step (Migrate q callback find_fault write_fault parse) s =
     Some (snd (Queue_migrate q callback find_fault write_fault parse s))"

fun run :: "call list \<Rightarrow> store \<Rightarrow> store option" where
  "run [] s = Some s"
| "run (c # cs) s = (case step c s of None \<Rightarrow> None | Some s' \<Rightarrow> run cs s')"

section \<open>Leases\<close>

text \<open>
  A token is live in a collection when exactly one document carries it as its
  \<^verbatim>\<open>ack\<close>, at position \<open>i\<close>, and that document is not deleted (its \<^verbatim>\<open>deleted\<close>
  is absent or \<^verbatim>\<open>null\<close>) and is visible at the native date \<open>deadline\<close>.
\<close>

definition holds_lease :: "doc list \<Rightarrow> string \<Rightarrow> nat \<Rightarrow> int \<Rightarrow> bool" where
  "holds_lease docs token i deadline =
     (i < length docs
      \<and> doc_ack (docs ! i) = Present token
      \<and> field_null (doc_deleted (docs ! i))
      \<and> doc_visible (docs ! i) = Some (Date deadline)
      \<and> (\<forall>j<length docs. doc_ack (docs ! j) = Present token \<longrightarrow> j = i))"

section \<open>What every write keeps\<close>

text \<open>
  A collection \<open>docs'\<close> keeps the collection \<open>docs\<close> when every position of \<open>docs\<close>
  is a position of \<open>docs'\<close>, holds a document with the same identifier there, a
  \<^verbatim>\<open>deleted\<close> that was there is there, and a \<^verbatim>\<open>deleted\<close> that had a value has one.
\<close>

definition kept :: "doc list \<Rightarrow> doc list \<Rightarrow> bool" where
  "kept docs docs' =
     (length docs \<le> length docs'
      \<and> (\<forall>j<length docs.
            doc_id (docs' ! j) = doc_id (docs ! j)
            \<and> (field_exists (doc_deleted (docs ! j)) \<longrightarrow> field_exists (doc_deleted (docs' ! j)))
            \<and> (field_present (doc_deleted (docs ! j)) \<longrightarrow> field_present (doc_deleted (docs' ! j)))))"

section \<open>Concrete inputs\<close>

text \<open>A queue \<^verbatim>\<open>jobs\<close> with the default options, and a collection in three states.\<close>

definition jobs :: queue where
  "jobs = Queue ''jobs'' 30 0 (- 1) None Infinity"

definition pending_doc :: doc where
  "pending_doc = \<lparr>doc_id = 0, doc_payload = JString ''a'', doc_visible = Some (Date 0),
     doc_ack = Absent, doc_tries = None, doc_deleted = Absent, doc_debounce = None\<rparr>"

definition leased_doc :: doc where
  "leased_doc = \<lparr>doc_id = 1, doc_payload = JString ''b'', doc_visible = Some (Date 100),
     doc_ack = Present ''token-b'', doc_tries = Some 1, doc_deleted = Absent,
     doc_debounce = None\<rparr>"

definition done_doc :: doc where
  "done_doc = \<lparr>doc_id = 2, doc_payload = JString ''c'', doc_visible = Some (Date 40),
     doc_ack = Present ''token-c'', doc_tries = Some 1, doc_deleted = Present (Date 20),
     doc_debounce = None\<rparr>"

definition three_docs :: store where
  "three_docs = \<lparr>collections = (\<lambda>c. if c = ''jobs'' then [pending_doc, leased_doc, done_doc] else []),
     next_oid = 3\<rparr>"

text \<open>
  A queue that retires a message after one try, with and without a dead queue; a
  collection whose only message was tried once and whose lease has run out; two round
  trips of \<^verbatim>\<open>get\<close> in which the store reports no error; a queue whose default delay
  is three seconds.
\<close>

definition retry_once :: queue where
  "retry_once = Queue ''jobs'' 30 0 (- 1) None (Finite 1)"

definition expired_doc :: doc where
  "expired_doc = \<lparr>doc_id = 0, doc_payload = JString ''a'', doc_visible = Some (Date 0),
     doc_ack = Present ''token-a'', doc_tries = Some 1, doc_deleted = Absent,
     doc_debounce = None\<rparr>"

definition one_expired :: store where
  "one_expired = \<lparr>collections = (\<lambda>c. if c = ''jobs'' then [expired_doc] else []), next_oid = 1\<rparr>"

definition first_round :: round where
  "first_round = \<lparr>claim_clock = 1000, claim_token = ''token-1'', lease_clock = 1000,
     dead_clock = 1001, ack_clock = 1002, ack_stamp = 1002,
     claim_fault = None, dead_fault = None, ack_fault = None\<rparr>"

definition second_round :: round where
  "second_round = \<lparr>claim_clock = 1003, claim_token = ''token-2'', lease_clock = 1003,
     dead_clock = 1004, ack_clock = 1005, ack_stamp = 1005,
     claim_fault = None, dead_fault = None, ack_fault = None\<rparr>"

definition delayed :: queue where
  "delayed = Queue ''jobs'' 30 3 (- 1) None Infinity"

definition empty_store :: store where
  "empty_store = \<lparr>collections = (\<lambda>c. []), next_oid = 0\<rparr>"

definition graveyard :: queue where
  "graveyard = Queue ''dead'' 30 0 (- 1) None Infinity"

definition retry_once_dead :: queue where
  "retry_once_dead = Queue ''jobs'' 30 0 (- 1) (Some graveyard) (Finite 1)"

text \<open>The collection after \<^verbatim>\<open>get\<close> has claimed its first message with the token \<^verbatim>\<open>token-1\<close>.\<close>

definition claimed_doc :: doc where
  "claimed_doc = \<lparr>doc_id = 0, doc_payload = JString ''a'', doc_visible = Some (Date 31000),
     doc_ack = Present ''token-1'', doc_tries = Some 1, doc_deleted = Absent,
     doc_debounce = None\<rparr>"

definition claimed_store :: store where
  "claimed_store = \<lparr>collections = (\<lambda>c. if c = ''jobs'' then [claimed_doc, leased_doc, done_doc] else []),
     next_oid = 3\<rparr>"

text \<open>
  The options of an \<^verbatim>\<open>add\<close> under the debounce key \<^verbatim>\<open>greetings\<close>; the document
  such an \<^verbatim>\<open>add\<close> on the queue with the default delay writes into an empty
  collection at the clock reading 0; a collection with that document and a leased
  message.
\<close>

definition greetings :: AddOptions where
  "greetings = \<lparr>add_delay = None, add_debounce = Some ''greetings''\<rparr>"

definition greeting_doc :: doc where
  "greeting_doc = \<lparr>doc_id = 0, doc_payload = JString ''Hello, World!'',
     doc_visible = Some (Date 3000), doc_ack = Null, doc_tries = None, doc_deleted = Null,
     doc_debounce = Some ''greetings''\<rparr>"

definition greeting_store :: store where
  "greeting_store = \<lparr>collections = (\<lambda>c. if c = ''jobs'' then [greeting_doc, leased_doc] else []),
     next_oid = 2\<rparr>"

text \<open>
  A collection with a record of an older version, whose timestamps are strings, and a
  sequence of operations on it.
\<close>

definition legacy_doc :: doc where
  "legacy_doc = \<lparr>doc_id = 2, doc_payload = JString ''c'', doc_visible = Some (Text ''2014-01-01''),
     doc_ack = Present ''token-c'', doc_tries = Some 1, doc_deleted = Present (Text ''2014-01-02''),
     doc_debounce = None\<rparr>"

definition legacy_store :: store where
  "legacy_store = \<lparr>collections = (\<lambda>c. if c = ''jobs'' then [pending_doc, leased_doc, legacy_doc] else []),
     next_oid = 3\<rparr>"

definition legacy_calls :: "call list" where
  "legacy_calls =
     [Migrate jobs True None None (\<lambda>t. 7),
      Ack jobs ''token-b'' True None 50 51,
      Add jobs (JString ''z'') (Bag (Some \<lparr>add_delay = None, add_debounce = Some ''k''\<rparr>), Fn) None 60,
      Get retry_once_dead (Fn, Nothing) [first_round, second_round],
      Ping jobs ''token-1'' (Fn, Nothing) None 1100 1101]"

section \<open>Facts about the store\<close>

lemma find_first_None: "find_first P xs = None \<longleftrightarrow> (\<forall>x\<in>set xs. \<not> P x)"
  by (induction xs) auto

lemma find_first_Some:
  "find_first P xs = Some i \<Longrightarrow> i < length xs \<and> P (xs ! i) \<and> (\<forall>j<i. \<not> P (xs ! j))"
proof (induction xs arbitrary: i)
  case Nil
  then show ?case by simp
next
  case (Cons x xs)
  show ?case
  proof (cases "P x")
    case True
    with Cons.prems show ?thesis by simp
  next
    case False
    with Cons.prems obtain k where k: "find_first P xs = Some k" "i = Suc k"
      by auto
    from Cons.IH [OF k(1)] False k(2) show ?thesis
      by (auto simp: less_Suc_eq_0_disj)
  qed
qed

lemma find_first_unique:
  assumes "i < length xs" "P (xs ! i)" "\<forall>j<length xs. P (xs ! j) \<longrightarrow> j = i"
  shows "find_first P xs = Some i"
proof (cases "find_first P xs")
  case None
  with assms(1,2) show ?thesis by (auto simp: find_first_None)
next
  case (Some k)
  from find_first_Some [OF Some] assms(3) show ?thesis using Some by auto
qed

lemma fold_min_least: "fold min xs (a::nat) \<le> a \<and> (\<forall>x\<in>set xs. fold min xs a \<le> x)"
proof (induction xs arbitrary: a)
  case Nil
  then show ?case by simp
next
  case (Cons x xs)
  from Cons.IH [of "min x a"] show ?case by (auto simp: min_def split: if_splits)
qed

lemma fold_min_member: "fold min xs (a::nat) \<in> set (a # xs)"
proof (induction xs arbitrary: a)
  case Nil
  then show ?case by simp
next
  case (Cons x xs)
  from Cons.IH [of "min x a"] show ?case by (auto simp: min_def split: if_splits)
qed

lemma select_sorted_None:
  "select q IdAscending docs = None \<longleftrightarrow> (\<forall>d\<in>set docs. \<not> matches q d)"
proof (cases "filter (matches q) docs")
  case Nil
  then show ?thesis by (auto simp: filter_empty_conv)
next
  case (Cons m ms)
  let ?least = "fold min (map doc_id ms) (doc_id m)"
  have "?least \<in> set (doc_id m # map doc_id ms)" by (rule fold_min_member)
  then have "?least \<in> doc_id ` set (filter (matches q) docs)" using Cons by auto
  then obtain d where d: "d \<in> set docs" "matches q d" "doc_id d = ?least" by auto
  then have "find_first (\<lambda>d. matches q d \<and> doc_id d = ?least) docs \<noteq> None"
    by (auto simp: find_first_None)
  with Cons d show ?thesis by auto
qed

lemma select_sorted_Some:
  assumes "select q IdAscending docs = Some i"
  shows "i < length docs \<and> matches q (docs ! i)
    \<and> (\<forall>d\<in>set docs. matches q d \<longrightarrow> doc_id (docs ! i) \<le> doc_id d)"
proof (cases "filter (matches q) docs")
  case Nil
  with assms show ?thesis by simp
next
  case (Cons m ms)
  let ?least = "fold min (map doc_id ms) (doc_id m)"
  from assms Cons have "find_first (\<lambda>d. matches q d \<and> doc_id d = ?least) docs = Some i"
    by simp
  from find_first_Some [OF this]
  have i: "i < length docs" "matches q (docs ! i)" "doc_id (docs ! i) = ?least" by auto
  have "doc_id (docs ! i) \<le> doc_id d" if "d \<in> set docs" "matches q d" for d
  proof -
    from that have "d \<in> set (m # ms)" using Cons [symmetric] by simp
    then have "doc_id d = doc_id m \<or> doc_id d \<in> set (map doc_id ms)" by auto
    with fold_min_least [of "map doc_id ms" "doc_id m"] i(3) show ?thesis by auto
  qed
  with i show ?thesis by blast
qed

lemma with_collection_same [simp]: "with_collection s c (collections s c) = s"
  by (simp add: with_collection_def)

lemma collections_with_collection [simp]:
  "collections (with_collection s c docs) c' = (if c' = c then docs else collections s c')"
  by (simp add: with_collection_def)

lemma disjoint_counts:
  assumes "\<And>x. x \<in> set xs \<Longrightarrow> \<not> (P x \<and> Q x) \<and> \<not> (P x \<and> R x) \<and> \<not> (Q x \<and> R x)"
  shows "length (filter P xs) + length (filter Q xs) + length (filter R xs) \<le> length xs"
  using assms by (induction xs) auto

lemma lte_not_gt: "stamp_lte v t \<Longrightarrow> \<not> stamp_gt v t"
  by (cases "(v, t)" rule: stamp_lte.cases) auto

section \<open>Calls in the declared forms\<close>

text \<open>
  The forms of a call the type declaration gives: the callback alone, or an options
  object and the callback. In them the options are read from the object, the callback is
  a function, and nothing is thrown when a field of the options is read.
\<close>

lemma arguments_args_of [simp]:
  "fst (arguments (args_of opts)) \<noteq> Nothing"
  "fields_of (fst (arguments (args_of opts))) = opts"
  "snd (arguments (args_of opts)) = Fn"
  by (simp_all add: arguments_def args_of_def split: option.splits)

lemma arguments_callback [simp]:
  "fst (arguments (Fn, Nothing)) = Bag None"
  "snd (arguments (Fn, Nothing)) = Fn"
  by (simp_all add: arguments_def)

lemma args_of_None: "args_of None = (Fn, Nothing)"
  by (simp add: args_of_def)

lemma call_function [simp]: "call_now True r = r" "call_later True r = r"
  by (simp_all add: call_now_def call_later_def)

lemma Queue_add_proper:
  "Queue_add q payload (args_of opts) None clock s =
     (let visible = add_visible q opts clock;
          debounce = debounce_key opts;
          justOne = (case payload of JArray elems \<Rightarrow> False | _ \<Rightarrow> True);
          payloads = (case payload of JArray elems \<Rightarrow> elems | _ \<Rightarrow> [payload])
      in
        if length payloads \<le> 0
        then (Failed (Error ''Queue.add(): Array payload length must be greater than 0''), s)
        else
          let operations = map (add_operation debounce visible) payloads;
              written = bulkWrite operations (collections s (name q), next_oid s);
              ids = map_index (\<lambda>index p. id_of_slot (snd written) index) 0 payloads;
              s' = (with_collection s (name q) (fst (fst written)))\<lparr>next_oid := snd (fst written)\<rparr>
          in
            if justOne
            then (Returned (JString (slot_string (hd ids))), s')
            else (Returned (JString (join_commas (map slot_string ids))), s'))"
  by (simp add: Queue_add_def Let_def)

lemma Queue_ping_proper:
  "Queue_ping q token (args_of opts) None clock clock' s =
     (let vis = num_or (case opts of None \<Rightarrow> None | Some given \<Rightarrow> ping_visibility given)
                  (visibility q);
          found = findOneAndUpdate [AckEq token, VisibleGt clock, DeletedNull]
                    [SetVisible (Date (nowPlusSecs clock' vis))] Natural (collections s (name q))
      in
        case snd found of
          None \<Rightarrow>
            (Failed (Error (''Queue.ping(): Unidentified ack  : '' @ token)),
             with_collection s (name q) (fst found))
        | Some d \<Rightarrow> (Returned (oid_string (doc_id d)), with_collection s (name q) (fst found)))"
  by (simp add: Queue_ping_def Let_def cong: option.case_cong)

lemma Queue_ack_proper:
  "Queue_ack q token True None clock clock' s =
     (let found = findOneAndUpdate [AckEq token, VisibleGt clock, DeletedNull]
                    [SetDeleted (Date clock')] Natural (collections s (name q))
      in
        case snd found of
          None \<Rightarrow>
            (Failed (Error (''Queue.ack(): Unidentified ack : '' @ token)),
             with_collection s (name q) (fst found))
        | Some d \<Rightarrow> (Returned (oid_string (doc_id d)), with_collection s (name q) (fst found)))"
  by (simp add: Queue_ack_def Let_def cong: option.case_cong)

section \<open>The counters\<close>

lemma counts_partition_without_null:
  assumes "\<forall>d\<in>set docs. doc_deleted d \<noteq> Null"
  shows "count [DeletedNull, VisibleLte t] docs + count [AckExists, VisibleGt t, DeletedNull] docs
      + count [DeletedExists] docs \<le> length docs"
  unfolding count_def
proof (rule disjoint_counts)
  fix d
  assume "d \<in> set docs"
  with assms have "doc_deleted d \<noteq> Null" by simp
  then show "\<not> (matches [DeletedNull, VisibleLte t] d \<and> matches [AckExists, VisibleGt t, DeletedNull] d)
      \<and> \<not> (matches [DeletedNull, VisibleLte t] d \<and> matches [DeletedExists] d)
      \<and> \<not> (matches [AckExists, VisibleGt t, DeletedNull] d \<and> matches [DeletedExists] d)"
    by (cases "doc_deleted d") (auto simp: matches_def dest: lte_not_gt)
qed

text \<open>
  C9. The claim: in every reachable state of the collection the counts of \<^verbatim>\<open>size\<close>,
  \<^verbatim>\<open>inFlight\<close> and \<^verbatim>\<open>done\<close> add up to at most \<^verbatim>\<open>total\<close>, and a document that
  \<^verbatim>\<open>inFlight\<close> counts is counted neither by \<^verbatim>\<open>size\<close> nor by \<^verbatim>\<open>done\<close>. The code,
  on the queue with a default delay of three seconds and an empty collection:
  \<^verbatim>\<open>add('Hello, World!', {debounce: 'greetings'}, callback)\<close> at the clock reading 0
  upserts with the filter \<^verbatim>\<open>{ack: null, deleted: null, debounce}\<close>, and the document
  the store inserts carries \<^verbatim>\<open>ack: null\<close> and \<^verbatim>\<open>deleted: null\<close>. At the clock reading
  1000 that one document is counted by \<^verbatim>\<open>inFlight\<close> and by \<^verbatim>\<open>done\<close>: the counts are
  0, 1 and 1, and \<^verbatim>\<open>total\<close> is 1.
\<close>

theorem debounced_message_counted_twice:
  "fst (Queue_add delayed (JString ''Hello, World!'') (args_of (Some greetings)) None 0 empty_store)
     = Returned (JString ''000000000000000000000000'')
   \<and> collections (snd (Queue_add delayed (JString ''Hello, World!'') (args_of (Some greetings))
        None 0 empty_store)) ''jobs'' = [greeting_doc]
   \<and> matches [AckExists, VisibleGt 1000, DeletedNull] greeting_doc
   \<and> matches [DeletedExists] greeting_doc
   \<and> Queue_size delayed True None 1000 (snd (Queue_add delayed (JString ''Hello, World!'')
        (args_of (Some greetings)) None 0 empty_store)) = Returned 0
   \<and> Queue_inFlight delayed True None 1000 (snd (Queue_add delayed (JString ''Hello, World!'')
        (args_of (Some greetings)) None 0 empty_store)) = Returned 1
   \<and> Queue_done delayed True None (snd (Queue_add delayed (JString ''Hello, World!'')
        (args_of (Some greetings)) None 0 empty_store)) = Returned 1
   \<and> Queue_total delayed True None (snd (Queue_add delayed (JString ''Hello, World!'')
        (args_of (Some greetings)) None 0 empty_store)) = Returned 1"
  by code_simp

section \<open>get: messages over the retry budget\<close>

text \<open>
  C1. The claim: a caller of \<^verbatim>\<open>get\<close> never observes a message whose tries exceed
  \<^verbatim>\<open>maxRetries\<close>. The code at a queue built with \<^verbatim>\<open>maxRetries: 1\<close> and no dead
  queue, on a collection whose only message was tried once: the claim makes it the second
  try, \<^verbatim>\<open>get\<close> starts the \<^verbatim>\<open>ack\<close>, and without a \<^verbatim>\<open>return\<close> in that branch goes on
  to \<^verbatim>\<open>callback(null, msg)\<close>: the callback receives the over-retried message first,
  and the empty result of the recursive \<^verbatim>\<open>get\<close> afterwards.
\<close>

theorem get_delivers_over_retried_message:
  "new_Queue (Some MongoClient) (Some ''jobs'') (Some (no_options\<lparr>opt_maxRetries := Some (Finite 1)\<rparr>))
     = Returned retry_once
   \<and> exceeds (Some 2) (maxRetries retry_once)
   \<and> map_option fst (Queue_get retry_once (args_of None) [first_round, second_round] one_expired)
     = Some [Returned (Some \<lparr>msg_id = ''000000000000000000000000'', msg_ack = Present ''token-1'',
               msg_payload = JString ''a'', msg_tries = Some 2\<rparr>),
             Returned None]"
  by code_simp

lemma get_dead_letters_over_retried_message:
  "map_option fst (Queue_get retry_once_dead (args_of None) [first_round, second_round] one_expired)
     = Some [Returned None]
   \<and> map_option (\<lambda>r. map doc_payload (collections (snd r) ''dead''))
        (Queue_get retry_once_dead (args_of None) [first_round, second_round] one_expired)
     = Some [JObject [(''id'', JString ''000000000000000000000000''), (''ack'', JString ''token-1''),
               (''payload'', JString ''a''), (''tries'', JNumber 2)]]
   \<and> map_option (\<lambda>r. map doc_deleted (collections (snd r) ''jobs''))
        (Queue_get retry_once_dead (args_of None) [first_round, second_round] one_expired)
     = Some [Present (Date 1002)]"
  by code_simp

section \<open>add: the effective delay\<close>

lemma add_visible_eq: "add_visible q opts clock = Date (clock + effective_delay q opts * 1000)"
  by (simp add: add_visible_def nowPlusSecs_def)

lemma visible_apply_update [simp]:
  "doc_visible (apply_update [SetVisible v, SetPayload p] d) = Some v"
  "doc_payload (apply_update [SetVisible v, SetPayload p] d) = p"
  by (simp_all add: apply_update_def)

lemma bulk_step_add_written:
  "\<forall>d\<in>set (fst (fst (bulk_step (add_operation k v p) i st))).
     d \<in> set (fst (fst st)) \<or> doc_visible d = Some v"
proof -
  obtain docs n r where st: "st = ((docs, n), r)" by (cases st) auto
  show ?thesis
  proof (cases k)
    case None
    then show ?thesis by (auto simp: st add_operation_def)
  next
    case (Some key)
    then show ?thesis
      by (auto simp: st add_operation_def upsert_doc_def split: option.splits
          dest!: set_update_subset_insert [THEN subsetD])
  qed
qed

lemma bulk_from_add_written:
  "\<forall>d\<in>set (fst (fst (bulk_from i (map (add_operation k v) ps) st))).
     d \<in> set (fst (fst st)) \<or> doc_visible d = Some v"
proof (induction ps arbitrary: i st)
  case Nil
  then show ?case by simp
next
  case (Cons p ps)
  from Cons.IH [of "Suc i" "bulk_step (add_operation k v p) i st"]
    bulk_step_add_written [of k v p i st]
  show ?case by auto
qed

lemma bulk_step_add_writes:
  "\<exists>d\<in>set (fst (fst (bulk_step (add_operation k v p) i st))).
     doc_payload d = p \<and> doc_visible d = Some v"
proof -
  obtain docs n r where st: "st = ((docs, n), r)" by (cases st) auto
  show ?thesis
  proof (cases k)
    case None
    then show ?thesis by (auto simp: st add_operation_def)
  next
    case (Some key)
    show ?thesis
    proof (cases "find_first (matches [AckNull, DeletedNull, DebounceEq key]) docs")
      case None
      with Some show ?thesis by (auto simp: st add_operation_def upsert_doc_def)
    next
      case (Some j)
      from find_first_Some [OF Some] have "j < length docs" by simp
      then have "apply_update [SetVisible v, SetPayload p] (docs ! j)
          \<in> set (docs[j := apply_update [SetVisible v, SetPayload p] (docs ! j)])"
        by (simp add: set_update_memI)
      with Some \<open>k = Some key\<close> show ?thesis
        by (auto simp: st add_operation_def intro!: bexI)
    qed
  qed
qed

text \<open>
  C5, as stated, fails: on a queue whose default delay is three seconds, \<^verbatim>\<open>add\<close> with
  \<^verbatim>\<open>delay: 0\<close> at clock \<open>1000\<close> writes a message visible at \<open>4000\<close>, not at \<open>1000\<close>.
\<close>

theorem add_zero_delay_counterexample:
  "effective_delay delayed (Some \<lparr>add_delay = Some 0, add_debounce = None\<rparr>) = 3
   \<and> map doc_visible (collections (snd (Queue_add delayed (JString ''x'')
          (args_of (Some \<lparr>add_delay = Some 0, add_debounce = None\<rparr>)) None 1000 empty_store)) ''jobs'')
     = [Some (Date 4000)]"
  by code_simp

text \<open>
  C5, amended. The effective delay of \<^verbatim>\<open>add\<close> is \<^verbatim>\<open>opts.delay\<close> when it is present
  and not zero, and the queue's default delay otherwise (no options, no \<^verbatim>\<open>delay\<close>, or
  \<^verbatim>\<open>delay: 0\<close>). Every document the call writes (one that was not in the collection
  before) is visible at the clock plus the effective delay, and for a payload that is not
  an array a document with that payload and that visibility is in the collection
  afterwards.
\<close>

theorem add_effective_delay:
  "effective_delay q opts =
      (case opts of
         None \<Rightarrow> delay q
       | Some given \<Rightarrow>
           (case add_delay given of
              None \<Rightarrow> delay q
            | Some n \<Rightarrow> if n = 0 then delay q else n))
   \<and> (\<forall>d\<in>set (collections (snd (Queue_add q payload (args_of opts) None clock s)) (name q)).
         d \<in> set (collections s (name q))
         \<or> doc_visible d = Some (Date (clock + effective_delay q opts * 1000)))
   \<and> ((\<forall>elems. payload \<noteq> JArray elems) \<longrightarrow>
         (\<exists>d\<in>set (collections (snd (Queue_add q payload (args_of opts) None clock s)) (name q)).
            doc_payload d = payload
            \<and> doc_visible d = Some (Date (clock + effective_delay q opts * 1000))))"
proof (intro conjI impI)
  show "effective_delay q opts =
      (case opts of None \<Rightarrow> delay q
       | Some given \<Rightarrow> (case add_delay given of None \<Rightarrow> delay q
            | Some n \<Rightarrow> if n = 0 then delay q else n))"
    by (simp add: effective_delay_def num_or_def split: option.splits)
next
  let ?v = "Date (clock + effective_delay q opts * 1000)"
  show "\<forall>d\<in>set (collections (snd (Queue_add q payload (args_of opts) None clock s)) (name q)).
         d \<in> set (collections s (name q)) \<or> doc_visible d = Some ?v"
    using bulk_from_add_written [of 0 "debounce_key opts" ?v _
        "((collections s (name q), next_oid s), no_result)"]
    by (auto simp: Queue_add_proper Let_def bulkWrite_def add_visible_eq with_collection_def
        split: jsval.splits)
next
  let ?v = "Date (clock + effective_delay q opts * 1000)"
  assume single: "\<forall>elems. payload \<noteq> JArray elems"
  then have "collections (snd (Queue_add q payload (args_of opts) None clock s)) (name q)
      = fst (fst (bulk_step (add_operation (debounce_key opts) ?v payload) 0
          ((collections s (name q), next_oid s), no_result)))"
    by (cases payload) (simp_all add: Queue_add_proper Let_def bulkWrite_def add_visible_eq
        with_collection_def)
  with bulk_step_add_writes [of "debounce_key opts" ?v payload 0]
  show "\<exists>d\<in>set (collections (snd (Queue_add q payload (args_of opts) None clock s)) (name q)).
          doc_payload d = payload \<and> doc_visible d = Some ?v"
    by simp
qed

theorem add_effective_delay_witness:
  "effective_delay delayed (Some \<lparr>add_delay = Some 7, add_debounce = None\<rparr>) = 7
   \<and> (\<exists>d\<in>set (collections (snd (Queue_add delayed (JString ''x'')
          (args_of (Some \<lparr>add_delay = Some 7, add_debounce = None\<rparr>)) None 1000 empty_store)) (name delayed)).
         doc_payload d = JString ''x'' \<and> doc_visible d = Some (Date 8000))"
proof -
  note fact = add_effective_delay [of delayed "Some \<lparr>add_delay = Some 7, add_debounce = None\<rparr>"
      "JString ''x''" 1000 empty_store]
  from fact have effective:
    "effective_delay delayed (Some \<lparr>add_delay = Some 7, add_debounce = None\<rparr>) = 7"
    by simp
  from fact have written: "\<exists>d\<in>set (collections (snd (Queue_add delayed (JString ''x'')
          (args_of (Some \<lparr>add_delay = Some 7, add_debounce = None\<rparr>)) None 1000 empty_store)) (name delayed)).
         doc_payload d = JString ''x''
         \<and> doc_visible d = Some (Date (1000
               + effective_delay delayed (Some \<lparr>add_delay = Some 7, add_debounce = None\<rparr>) * 1000))"
    by blast
  show ?thesis
    using effective written unfolding effective by simp
qed

section \<open>Facts about findOneAndUpdate\<close>

lemma findOneAndUpdate_Some:
  assumes "findOneAndUpdate query u srt docs = (docs', Some d)"
  shows "\<exists>i<length docs. matches query (docs ! i) \<and> d = apply_update u (docs ! i)
     \<and> docs' = docs[i := d]"
proof (cases "select query srt docs")
  case None
  with assms show ?thesis by (simp add: findOneAndUpdate_def)
next
  case (Some i)
  have "i < length docs \<and> matches query (docs ! i)"
  proof (cases srt)
    case Natural
    with Some find_first_Some [of "matches query" docs i] show ?thesis by simp
  next
    case IdAscending
    with Some select_sorted_Some [of query docs i] show ?thesis by simp
  qed
  with assms Some show ?thesis by (auto simp: findOneAndUpdate_def)
qed

lemma findOneAndUpdate_None:
  assumes "findOneAndUpdate query u srt docs = (docs', None)"
  shows "docs' = docs \<and> (\<forall>d\<in>set docs. \<not> matches query d)"
proof (cases "select query srt docs")
  case None
  have "\<forall>d\<in>set docs. \<not> matches query d"
  proof (cases srt)
    case Natural
    with None show ?thesis by (simp add: find_first_None)
  next
    case IdAscending
    from None show ?thesis unfolding IdAscending by (rule select_sorted_None [THEN iffD1])
  qed
  with assms None show ?thesis by (simp add: findOneAndUpdate_def)
next
  case (Some i)
  with assms show ?thesis by (simp add: findOneAndUpdate_def)
qed

section \<open>get: the claim\<close>

lemma get_claim_found:
  assumes some: "\<exists>d\<in>set docs. matches [DeletedNull, VisibleLte t] d"
  shows "\<exists>i<length docs. matches [DeletedNull, VisibleLte t] (docs ! i)
     \<and> (\<forall>d\<in>set docs. matches [DeletedNull, VisibleLte t] d \<longrightarrow> doc_id (docs ! i) \<le> doc_id d)
     \<and> get_claim q opts t token t' docs =
        (docs[i := (docs ! i)\<lparr>
            doc_tries := Some (case doc_tries (docs ! i) of None \<Rightarrow> 1 | Some n \<Rightarrow> n + 1),
            doc_ack := Present token,
            doc_visible := Some (Date (t' + num_or (case opts of None \<Rightarrow> None
               | Some given \<Rightarrow> get_visibility given) (visibility q) * 1000))\<rparr>],
         Some ((docs ! i)\<lparr>
            doc_tries := Some (case doc_tries (docs ! i) of None \<Rightarrow> 1 | Some n \<Rightarrow> n + 1),
            doc_ack := Present token,
            doc_visible := Some (Date (t' + num_or (case opts of None \<Rightarrow> None
               | Some given \<Rightarrow> get_visibility given) (visibility q) * 1000))\<rparr>))"
proof -
  from some have "select [DeletedNull, VisibleLte t] IdAscending docs \<noteq> None"
    unfolding select_sorted_None by blast
  then obtain i where i: "select [DeletedNull, VisibleLte t] IdAscending docs = Some i"
    by blast
  note chosen = select_sorted_Some [OF i]
  have "get_claim q opts t token t' docs =
        (docs[i := (docs ! i)\<lparr>
            doc_tries := Some (case doc_tries (docs ! i) of None \<Rightarrow> 1 | Some n \<Rightarrow> n + 1),
            doc_ack := Present token,
            doc_visible := Some (Date (t' + num_or (case opts of None \<Rightarrow> None
               | Some given \<Rightarrow> get_visibility given) (visibility q) * 1000))\<rparr>],
         Some ((docs ! i)\<lparr>
            doc_tries := Some (case doc_tries (docs ! i) of None \<Rightarrow> 1 | Some n \<Rightarrow> n + 1),
            doc_ack := Present token,
            doc_visible := Some (Date (t' + num_or (case opts of None \<Rightarrow> None
               | Some given \<Rightarrow> get_visibility given) (visibility q) * 1000))\<rparr>))"
    unfolding get_claim_def findOneAndUpdate_def Let_def i
    by (simp add: apply_update_def nowPlusSecs_def cong: option.case_cong)
  with chosen show ?thesis by blast
qed

lemma get_claim_none:
  assumes "\<forall>d\<in>set docs. \<not> matches [DeletedNull, VisibleLte t] d"
  shows "get_claim q opts t token t' docs = (docs, None)"
proof -
  from assms have "select [DeletedNull, VisibleLte t] IdAscending docs = None"
    unfolding select_sorted_None by blast
  then show ?thesis
    unfolding get_claim_def findOneAndUpdate_def Let_def by simp
qed

lemma Queue_get_claimed:
  assumes "claim_fault r = None"
    and "get_claim q opts (claim_clock r) (claim_token r) (lease_clock r) (collections s (name q))
      = (docs', Some d)"
    and "\<not> exceeds (doc_tries d) (maxRetries q)"
  shows "Queue_get q (args_of opts) (r # rs) s
    = Some ([Returned (Some (external d))], with_collection s (name q) docs')"
  using assms by (simp add: Let_def external_def)

lemma Queue_get_nothing:
  assumes "claim_fault r = None"
    and "get_claim q opts (claim_clock r) (claim_token r) (lease_clock r) (collections s (name q))
      = (docs', None)"
  shows "Queue_get q (args_of opts) (r # rs) s = Some ([Returned None], with_collection s (name q) docs')"
  using assms by (simp add: Let_def)

section \<open>get and ping: a visibility of zero\<close>

lemma new_Queue_visibility:
  "new_Queue mongoDbClient nm options = Returned q \<Longrightarrow> visibility q \<noteq> 0"
  by (auto simp: new_Queue_def num_or_def Let_def split: if_splits option.splits)

lemma num_or_nonzero: "b \<noteq> 0 \<Longrightarrow> num_or a b \<noteq> 0"
  by (simp add: num_or_def split: option.splits)

lemma get_claim_falsy:
  "get_visibility given = Some 0 \<or> get_visibility given = None \<Longrightarrow>
     get_claim q (Some given) t token t' docs = get_claim q None t token t' docs"
  by (auto simp: get_claim_def num_or_def)

lemma Queue_get_falsy:
  "get_visibility given = Some 0 \<or> get_visibility given = None \<Longrightarrow>
     Queue_get q (args_of (Some given)) rounds s = Queue_get q (args_of None) rounds s"
proof (cases rounds)
  case Nil
  then show ?thesis by (simp add: args_of_def arguments_def)
next
  case (Cons r rs)
  assume falsy: "get_visibility given = Some 0 \<or> get_visibility given = None"
  show ?thesis
    unfolding Cons Queue_get.simps Let_def arguments_args_of get_claim_falsy [OF falsy]
    by simp
qed

lemma Queue_ping_falsy:
  "ping_visibility given = Some 0 \<or> ping_visibility given = None \<Longrightarrow>
     Queue_ping q token (args_of (Some given)) fault t t' s
       = Queue_ping q token (args_of None) fault t t' s"
  by (cases fault) (auto simp: Queue_ping_def num_or_def)

text \<open>
  C10. On a queue built by the constructor, \<^verbatim>\<open>get\<close> and \<^verbatim>\<open>ping\<close> called with
  \<^verbatim>\<open>visibility: 0\<close> (or with an options bag without \<^verbatim>\<open>visibility\<close>) behave as the
  call without options: the lease runs for the queue's default visibility, which is never
  zero. When the store answers and some document is claimable, \<^verbatim>\<open>get\<close> with
  \<^verbatim>\<open>visibility: 0\<close> claims one: the document carries the token of the call and is
  visible again at the clock plus the default visibility, and when its tries are within
  the budget the callback receives it. When the token is live, \<^verbatim>\<open>ping\<close> with
  \<^verbatim>\<open>visibility: 0\<close> succeeds and moves the deadline to the clock plus the default
  visibility. Whatever the options, the lease a successful \<^verbatim>\<open>get\<close> or \<^verbatim>\<open>ping\<close>
  grants does not end at the reading \<open>t'\<close> of the clock it was computed from: its
  duration is not zero seconds.
\<close>

theorem falsy_visibility_uses_default:
  assumes built: "new_Queue mongoDbClient nm options = Returned q"
  shows "visibility q \<noteq> 0
    \<and> Queue_get q (args_of (Some \<lparr>get_visibility = Some 0\<rparr>)) rounds s
        = Queue_get q (args_of None) rounds s
    \<and> Queue_get q (args_of (Some \<lparr>get_visibility = None\<rparr>)) rounds s
        = Queue_get q (args_of None) rounds s
    \<and> Queue_ping q token (args_of (Some \<lparr>ping_visibility = Some 0\<rparr>)) fault t t' s
        = Queue_ping q token (args_of None) fault t t' s
    \<and> Queue_ping q token (args_of (Some \<lparr>ping_visibility = None\<rparr>)) fault t t' s
        = Queue_ping q token (args_of None) fault t t' s
    \<and> (claim_fault r = None
         \<and> (\<exists>d\<in>set (collections s (name q)). matches [DeletedNull, VisibleLte (claim_clock r)] d)
        \<longrightarrow>
         (\<exists>i d'. i < length (collections s (name q))
            \<and> matches [DeletedNull, VisibleLte (claim_clock r)] (collections s (name q) ! i)
            \<and> get_claim q (Some \<lparr>get_visibility = Some 0\<rparr>) (claim_clock r) (claim_token r)
                 (lease_clock r) (collections s (name q))
               = ((collections s (name q))[i := d'], Some d')
            \<and> doc_id d' = doc_id (collections s (name q) ! i)
            \<and> doc_ack d' = Present (claim_token r)
            \<and> doc_visible d' = Some (Date (lease_clock r + visibility q * 1000))
            \<and> doc_visible d' \<noteq> Some (Date (lease_clock r))
            \<and> (\<not> exceeds (doc_tries d') (maxRetries q) \<longrightarrow>
                 Queue_get q (args_of (Some \<lparr>get_visibility = Some 0\<rparr>)) (r # rs) s
                   = Some ([Returned (Some (external d'))],
                           with_collection s (name q) ((collections s (name q))[i := d'])))))
    \<and> ((\<exists>d\<in>set (collections s (name q)). matches [AckEq token, VisibleGt t, DeletedNull] d)
        \<longrightarrow>
         (\<exists>i s'. Queue_ping q token (args_of (Some \<lparr>ping_visibility = Some 0\<rparr>)) None t t' s
                   = (Returned i, s')
            \<and> (\<exists>d\<in>set (collections s' (name q)).
                  doc_ack d = Present token
                  \<and> doc_visible d = Some (Date (t' + visibility q * 1000)))))
    \<and> (\<forall>docs' d. get_claim q None t token t' docs = (docs', Some d) \<longrightarrow>
          doc_visible d = Some (Date (t' + visibility q * 1000)))
    \<and> (\<forall>opts docs' d. get_claim q opts t token t' docs = (docs', Some d) \<longrightarrow>
          doc_visible d \<noteq> Some (Date t'))
    \<and> (\<forall>i s'. Queue_ping q token (args_of None) None t t' s = (Returned i, s') \<longrightarrow>
          (\<exists>d\<in>set (collections s' (name q)).
             doc_ack d = Present token \<and> doc_visible d = Some (Date (t' + visibility q * 1000))))
    \<and> (\<forall>opts i s'. Queue_ping q token (args_of opts) None t t' s = (Returned i, s') \<longrightarrow>
          (\<exists>d\<in>set (collections s' (name q)).
             doc_ack d = Present token \<and> doc_visible d \<noteq> None \<and> doc_visible d \<noteq> Some (Date t')))"
proof -
  from built have vis: "visibility q \<noteq> 0" by (rule new_Queue_visibility)
  let ?docs = "collections s (name q)"
  let ?zero = "Some \<lparr>get_visibility = Some 0\<rparr>"
  have claim_default: "doc_visible d = Some (Date (t' + visibility q * 1000))"
    if "get_claim q None t token t' docs = (docs', Some d)" for docs' d
    using findOneAndUpdate_Some [OF that [unfolded get_claim_def Let_def]] vis
    by (auto simp: apply_update_def num_or_def nowPlusSecs_def)
  have claim_any: "doc_visible d \<noteq> Some (Date t')"
    if "get_claim q opts t token t' docs = (docs', Some d)" for opts docs' d
    using findOneAndUpdate_Some [OF that [unfolded get_claim_def Let_def]]
      num_or_nonzero [OF vis]
    by (auto simp: apply_update_def nowPlusSecs_def)
  have ping_any: "\<exists>d\<in>set (collections s' (name q)). doc_ack d = Present token
        \<and> doc_visible d = Some (Date (t' + num_or (case opts of None \<Rightarrow> None
             | Some given \<Rightarrow> ping_visibility given) (visibility q) * 1000))"
    if ping: "Queue_ping q token (args_of opts) None t t' s = (Returned i, s')" for opts i s'
  proof -
    let ?vis = "num_or (case opts of None \<Rightarrow> None | Some given \<Rightarrow> ping_visibility given)
        (visibility q)"
    obtain docs' found where f: "findOneAndUpdate [AckEq token, VisibleGt t, DeletedNull]
        [SetVisible (Date (nowPlusSecs t' ?vis))] Natural ?docs = (docs', found)"
      by fastforce
    with ping obtain d where d: "found = Some d" and s': "s' = with_collection s (name q) docs'"
      by (auto simp: Queue_ping_proper Let_def split: option.splits)
    from findOneAndUpdate_Some [OF f [unfolded d]]
    obtain j where j: "j < length ?docs"
      "matches [AckEq token, VisibleGt t, DeletedNull] (?docs ! j)"
      "d = apply_update [SetVisible (Date (nowPlusSecs t' ?vis))] (?docs ! j)"
      "docs' = ?docs[j := d]" by blast
    from j(1,4) have "d \<in> set docs'" by (simp add: set_update_memI)
    moreover from j(2,3) have "doc_ack d = Present token"
      "doc_visible d = Some (Date (t' + ?vis * 1000))"
      by (simp_all add: matches_def apply_update_def nowPlusSecs_def)
    ultimately show ?thesis using s' by auto
  qed
  have ping_default: "\<exists>d\<in>set (collections s' (name q)).
        doc_ack d = Present token \<and> doc_visible d = Some (Date (t' + visibility q * 1000))"
    if "Queue_ping q token (args_of None) None t t' s = (Returned i, s')" for i s'
    using ping_any [OF that] by (simp add: num_or_def)
  have ping_nonzero: "\<exists>d\<in>set (collections s' (name q)).
        doc_ack d = Present token \<and> doc_visible d \<noteq> None \<and> doc_visible d \<noteq> Some (Date t')"
    if "Queue_ping q token (args_of opts) None t t' s = (Returned i, s')" for opts i s'
    using ping_any [OF that] num_or_nonzero [OF vis] by auto
  have get_zero: "\<exists>i d'. i < length ?docs
      \<and> matches [DeletedNull, VisibleLte (claim_clock r)] (?docs ! i)
      \<and> get_claim q ?zero (claim_clock r) (claim_token r) (lease_clock r) ?docs
          = (?docs[i := d'], Some d')
      \<and> doc_id d' = doc_id (?docs ! i)
      \<and> doc_ack d' = Present (claim_token r)
      \<and> doc_visible d' = Some (Date (lease_clock r + visibility q * 1000))
      \<and> doc_visible d' \<noteq> Some (Date (lease_clock r))
      \<and> (\<not> exceeds (doc_tries d') (maxRetries q) \<longrightarrow>
           Queue_get q (args_of ?zero) (r # rs) s
             = Some ([Returned (Some (external d'))], with_collection s (name q) (?docs[i := d'])))"
    if ok: "claim_fault r = None"
      and some: "\<exists>d\<in>set ?docs. matches [DeletedNull, VisibleLte (claim_clock r)] d"
  proof -
    from get_claim_found [OF some, of q ?zero "claim_token r" "lease_clock r"]
    obtain i d' where i: "i < length ?docs"
      "matches [DeletedNull, VisibleLte (claim_clock r)] (?docs ! i)"
      and d': "d' = (?docs ! i)\<lparr>
            doc_tries := Some (case doc_tries (?docs ! i) of None \<Rightarrow> 1 | Some n \<Rightarrow> n + 1),
            doc_ack := Present (claim_token r),
            doc_visible := Some (Date (lease_clock r + num_or (Some 0) (visibility q) * 1000))\<rparr>"
      and found: "get_claim q ?zero (claim_clock r) (claim_token r) (lease_clock r) ?docs
          = (?docs[i := d'], Some d')"
      by auto
    have default: "num_or (Some 0) (visibility q) = visibility q"
      by (simp add: num_or_def)
    from d' have fields: "doc_id d' = doc_id (?docs ! i)" "doc_ack d' = Present (claim_token r)"
      "doc_visible d' = Some (Date (lease_clock r + visibility q * 1000))"
      unfolding default by simp_all
    from fields(3) vis have nonzero: "doc_visible d' \<noteq> Some (Date (lease_clock r))"
      by simp
    have "Queue_get q (args_of ?zero) (r # rs) s
        = Some ([Returned (Some (external d'))], with_collection s (name q) (?docs[i := d']))"
      if "\<not> exceeds (doc_tries d') (maxRetries q)"
      using ok found that by (rule Queue_get_claimed)
    with i found fields nonzero show ?thesis by blast
  qed
  have ping_zero: "\<exists>i s'. Queue_ping q token (args_of (Some \<lparr>ping_visibility = Some 0\<rparr>)) None t t' s
        = (Returned i, s')
      \<and> (\<exists>d\<in>set (collections s' (name q)).
            doc_ack d = Present token \<and> doc_visible d = Some (Date (t' + visibility q * 1000)))"
    if live: "\<exists>d\<in>set ?docs. matches [AckEq token, VisibleGt t, DeletedNull] d"
  proof -
    let ?opts = "Some \<lparr>ping_visibility = Some 0\<rparr>"
    let ?u = "[SetVisible (Date (nowPlusSecs t' (num_or (Some 0) (visibility q))))]"
    obtain docs' found where f: "findOneAndUpdate [AckEq token, VisibleGt t, DeletedNull]
        ?u Natural ?docs = (docs', found)"
      by fastforce
    have "found \<noteq> None"
    proof
      assume "found = None"
      with findOneAndUpdate_None [of "[AckEq token, VisibleGt t, DeletedNull]" ?u Natural ?docs docs'] f
        live show False by blast
    qed
    then obtain d where d: "found = Some d" by blast
    from f d have ping: "Queue_ping q token (args_of ?opts) None t t' s
        = (Returned (oid_string (doc_id d)), with_collection s (name q) docs')"
      by (simp add: Queue_ping_proper Let_def)
    from ping_any [OF ping]
    have "\<exists>d\<in>set (collections (with_collection s (name q) docs') (name q)).
        doc_ack d = Present token \<and> doc_visible d = Some (Date (t' + visibility q * 1000))"
      by (simp add: num_or_def)
    with ping show ?thesis by blast
  qed
  show ?thesis
    using vis claim_default claim_any ping_default ping_nonzero get_zero ping_zero
    by (simp add: Queue_get_falsy Queue_ping_falsy)
qed

theorem falsy_visibility_uses_default_witness:
  "new_Queue (Some MongoClient) (Some ''jobs'') None = Returned jobs
   \<and> visibility jobs = 30
   \<and> map_option fst (Queue_get jobs (args_of (Some \<lparr>get_visibility = Some 0\<rparr>)) [first_round]
        three_docs)
       = Some [Returned (Some \<lparr>msg_id = ''000000000000000000000000'',
                 msg_ack = Present ''token-1'', msg_payload = JString ''a'', msg_tries = Some 1\<rparr>)]
   \<and> map_option (\<lambda>r. map doc_visible (collections (snd r) ''jobs''))
        (Queue_get jobs (args_of (Some \<lparr>get_visibility = Some 0\<rparr>)) [first_round] three_docs)
       = Some [Some (Date 31000), Some (Date 100), Some (Date 40)]
   \<and> (\<exists>d'. doc_ack d' = Present ''token-1'' \<and> doc_visible d' = Some (Date 31000)
         \<and> map_option fst (Queue_get jobs (args_of (Some \<lparr>get_visibility = Some 0\<rparr>))
              [first_round] three_docs) = Some [Returned (Some (external d'))])
   \<and> fst (Queue_ping jobs ''token-b'' (args_of (Some \<lparr>ping_visibility = Some 0\<rparr>)) None 50 51
        three_docs) = Returned ''000000000000000000000001''
   \<and> map doc_visible (collections (snd (Queue_ping jobs ''token-b''
         (args_of (Some \<lparr>ping_visibility = Some 0\<rparr>)) None 50 51 three_docs)) ''jobs'')
       = [Some (Date 0), Some (Date 30051), Some (Date 40)]"
proof -
  have built: "new_Queue (Some MongoClient) (Some ''jobs'') None = Returned jobs"
    by code_simp
  note fact = falsy_visibility_uses_default [OF built, where token = "''token-b''"
      and t = 50 and t' = 51 and s = three_docs and r = first_round and rs = "[]"
      and rounds = "[first_round]" and fault = None]
  from fact have same: "Queue_ping jobs ''token-b'' (args_of (Some \<lparr>ping_visibility = Some 0\<rparr>))
      None 50 51 three_docs = Queue_ping jobs ''token-b'' (args_of None) None 50 51 three_docs"
    by blast
  from fact have same_get: "Queue_get jobs (args_of (Some \<lparr>get_visibility = Some 0\<rparr>))
      [first_round] three_docs = Queue_get jobs (args_of None) [first_round] three_docs"
    by blast
  have answered: "claim_fault first_round = None"
    by (simp add: first_round_def)
  have "pending_doc \<in> set (collections three_docs (name jobs))"
    by (simp add: three_docs_def jobs_def)
  moreover have "matches [DeletedNull, VisibleLte (claim_clock first_round)] pending_doc"
    by (simp add: matches_def pending_doc_def first_round_def)
  ultimately have claimable: "\<exists>d\<in>set (collections three_docs (name jobs)).
      matches [DeletedNull, VisibleLte (claim_clock first_round)] d"
    by blast
  from fact answered claimable
  obtain i d' where d': "doc_ack d' = Present (claim_token first_round)"
    "doc_visible d' = Some (Date (lease_clock first_round + visibility jobs * 1000))"
    and got: "\<not> exceeds (doc_tries d') (maxRetries jobs) \<longrightarrow>
      Queue_get jobs (args_of (Some \<lparr>get_visibility = Some 0\<rparr>)) [first_round] three_docs
        = Some ([Returned (Some (external d'))],
                with_collection three_docs (name jobs) ((collections three_docs (name jobs))[i := d']))"
    by blast
  have "\<not> exceeds (doc_tries d') (maxRetries jobs)"
    by (cases "doc_tries d'") (simp_all add: jobs_def)
  with got have "map_option fst (Queue_get jobs (args_of (Some \<lparr>get_visibility = Some 0\<rparr>))
      [first_round] three_docs) = Some [Returned (Some (external d'))]"
    by simp
  with d' have leased: "\<exists>d'. doc_ack d' = Present ''token-1'' \<and> doc_visible d' = Some (Date 31000)
      \<and> map_option fst (Queue_get jobs (args_of (Some \<lparr>get_visibility = Some 0\<rparr>))
           [first_round] three_docs) = Some [Returned (Some (external d'))]"
    by (auto simp: first_round_def jobs_def)
  have delivered: "map_option fst (Queue_get jobs (args_of None) [first_round] three_docs)
       = Some [Returned (Some \<lparr>msg_id = ''000000000000000000000000'',
                 msg_ack = Present ''token-1'', msg_payload = JString ''a'', msg_tries = Some 1\<rparr>)]"
    by code_simp
  have stored: "map_option (\<lambda>r. map doc_visible (collections (snd r) ''jobs''))
        (Queue_get jobs (args_of None) [first_round] three_docs)
       = Some [Some (Date 31000), Some (Date 100), Some (Date 40)]"
    by code_simp
  have default: "visibility jobs = 30"
    by (simp add: jobs_def)
  have pinged: "fst (Queue_ping jobs ''token-b'' (args_of None) None 50 51 three_docs)
      = Returned ''000000000000000000000001''"
    by code_simp
  have extended: "map doc_visible (collections (snd (Queue_ping jobs ''token-b'' (args_of None) None
      50 51 three_docs)) ''jobs'') = [Some (Date 0), Some (Date 30051), Some (Date 40)]"
    by code_simp
  show ?thesis
    unfolding same same_get
    using built default leased [unfolded same_get] delivered stored pinged extended
    by blast
qed

section \<open>Where errors go\<close>

lemma call_later_not_thrown [simp]:
  "r \<noteq> Thrown e \<Longrightarrow> call_later callback r \<noteq> Thrown e"
  by (simp add: call_later_def)

lemma add_thrown:
  "(\<exists>e. fst (Queue_add q payload given fault clock s) = Thrown e)
     \<longleftrightarrow> fst (arguments given) = Nothing \<or> (payload = JArray [] \<and> snd (arguments given) \<noteq> Fn)"
proof (cases "fst (arguments given) = Nothing")
  case True
  then show ?thesis by (simp add: Queue_add_def)
next
  case False
  show ?thesis
  proof (cases "payload = JArray []")
    case True
    with False show ?thesis by (simp add: Queue_add_def call_now_def)
  next
    case False
    with \<open>fst (arguments given) \<noteq> Nothing\<close> show ?thesis
      by (cases fault; cases payload)
        (simp_all add: Queue_add_def Let_def call_later_def)
  qed
qed


lemma ack_not_thrown: "fst (Queue_ack q token callback fault clock clock' s) \<noteq> Thrown e"
  by (cases fault)
    (auto simp: Queue_ack_def Let_def call_later_def split: option.splits)



lemma dead_add_not_thrown [simp]:
  "Queue_add q payload (Fn, Nothing) fault clock s \<noteq> (Thrown e, s')"
proof
  assume "Queue_add q payload (Fn, Nothing) fault clock s = (Thrown e, s')"
  then have "\<exists>e. fst (Queue_add q payload (Fn, Nothing) fault clock s) = Thrown e"
    by simp
  then show False
    unfolding add_thrown by simp
qed

lemma ack_never_thrown [simp]:
  "Queue_ack q token callback fault clock clock' s \<noteq> (Thrown e, s')"
  using ack_not_thrown [of q token callback fault clock clock' s e] by auto






section \<open>get: the oldest visible message\<close>

text \<open>
  C3, as stated, fails: on a queue with a dead queue and \<^verbatim>\<open>maxRetries: 1\<close>, a
  collection holds a claimable message that was tried once; \<^verbatim>\<open>get\<close> claims it, moves
  it to the dead queue and hands the caller the empty result, not the claimed message.
\<close>

theorem get_dead_letter_counterexample:
  "matches [DeletedNull, VisibleLte (claim_clock first_round)] expired_doc
   \<and> collections one_expired (name retry_once_dead) = [expired_doc]
   \<and> map_option fst (Queue_get retry_once_dead (args_of None) [first_round, second_round] one_expired)
     = Some [Returned None]"
  by code_simp

text \<open>
  C3, amended. When the store answers the request and some document of the collection has \<^verbatim>\<open>deleted\<close> absent and
  \<^verbatim>\<open>visible\<close> at most the clock, \<^verbatim>\<open>get\<close> claims in one store operation the one
  with the smallest \<^verbatim>\<open>_id\<close> among them: its \<^verbatim>\<open>tries\<close> grows by one (an absent
  counter becomes 1), its \<^verbatim>\<open>ack\<close> becomes the token minted for the call, its
  \<^verbatim>\<open>visible\<close> the clock plus the effective visibility, and no other document changes.
  The message built from the document as updated is \<^verbatim>\<open>{id, ack, payload, tries}\<close> with
  \<^verbatim>\<open>id\<close> the string of \<^verbatim>\<open>_id\<close>; when its tries do not exceed \<^verbatim>\<open>maxRetries\<close>,
  the callback receives exactly this message. When no document matches, the callback
  receives the empty result, no error, and the store is unchanged.
\<close>

theorem get_claims_oldest_visible:
  assumes docs: "docs = collections s (name q)"
    and vis: "vis = (case opts of
                       None \<Rightarrow> visibility q
                     | Some given \<Rightarrow>
                         (case get_visibility given of
                            None \<Rightarrow> visibility q
                          | Some v \<Rightarrow> if v = 0 then visibility q else v))"
    and claimed: "claimed = (\<lambda>d. d\<lparr>
          doc_tries := Some (case doc_tries d of None \<Rightarrow> 1 | Some n \<Rightarrow> n + 1),
          doc_ack := Present (claim_token r),
          doc_visible := Some (Date (lease_clock r + vis * 1000))\<rparr>)"
    and answered: "claim_fault r = None"
  shows "((\<exists>d\<in>set docs. matches [DeletedNull, VisibleLte (claim_clock r)] d) \<longrightarrow>
          (\<exists>i<length docs.
             matches [DeletedNull, VisibleLte (claim_clock r)] (docs ! i)
             \<and> (\<forall>d\<in>set docs. matches [DeletedNull, VisibleLte (claim_clock r)] d \<longrightarrow>
                   doc_id (docs ! i) \<le> doc_id d)
             \<and> get_claim q opts (claim_clock r) (claim_token r) (lease_clock r) docs
                 = (docs[i := claimed (docs ! i)], Some (claimed (docs ! i)))
             \<and> external (claimed (docs ! i))
                 = \<lparr>msg_id = oid_string (doc_id (docs ! i)), msg_ack = Present (claim_token r),
                    msg_payload = doc_payload (docs ! i),
                    msg_tries = Some (case doc_tries (docs ! i) of None \<Rightarrow> 1 | Some n \<Rightarrow> n + 1)\<rparr>
             \<and> (\<not> exceeds (doc_tries (claimed (docs ! i))) (maxRetries q) \<longrightarrow>
                   Queue_get q (args_of opts) (r # rs) s
                   = Some ([Returned (Some (external (claimed (docs ! i))))],
                           with_collection s (name q) (docs[i := claimed (docs ! i)])))))
     \<and> ((\<forall>d\<in>set docs. \<not> matches [DeletedNull, VisibleLte (claim_clock r)] d) \<longrightarrow>
          Queue_get q (args_of opts) (r # rs) s = Some ([Returned None], s))"
proof (intro conjI impI)
  assume "\<exists>d\<in>set docs. matches [DeletedNull, VisibleLte (claim_clock r)] d"
  from get_claim_found [OF this, of q opts "claim_token r" "lease_clock r"]
  obtain i where i: "i < length docs"
    "matches [DeletedNull, VisibleLte (claim_clock r)] (docs ! i)"
    "\<forall>d\<in>set docs. matches [DeletedNull, VisibleLte (claim_clock r)] d \<longrightarrow>
       doc_id (docs ! i) \<le> doc_id d"
    and found: "get_claim q opts (claim_clock r) (claim_token r) (lease_clock r) docs
      = (docs[i := claimed (docs ! i)], Some (claimed (docs ! i)))"
    unfolding claimed vis num_or_def by (auto split: option.splits)
  have ext: "external (claimed (docs ! i))
      = \<lparr>msg_id = oid_string (doc_id (docs ! i)), msg_ack = Present (claim_token r),
         msg_payload = doc_payload (docs ! i),
         msg_tries = Some (case doc_tries (docs ! i) of None \<Rightarrow> 1 | Some n \<Rightarrow> n + 1)\<rparr>"
    by (simp add: external_def claimed)
  have tries: "msg_tries (external (claimed (docs ! i))) = doc_tries (claimed (docs ! i))"
    by (simp add: external_def)
  have "Queue_get q (args_of opts) (r # rs) s
      = Some ([Returned (Some (external (claimed (docs ! i))))],
              with_collection s (name q) (docs[i := claimed (docs ! i)]))"
    if "\<not> exceeds (doc_tries (claimed (docs ! i))) (maxRetries q)"
    using answered found [unfolded docs] that unfolding docs
    by (rule Queue_get_claimed)
  with i found ext
  show "\<exists>i<length docs.
             matches [DeletedNull, VisibleLte (claim_clock r)] (docs ! i)
             \<and> (\<forall>d\<in>set docs. matches [DeletedNull, VisibleLte (claim_clock r)] d \<longrightarrow>
                   doc_id (docs ! i) \<le> doc_id d)
             \<and> get_claim q opts (claim_clock r) (claim_token r) (lease_clock r) docs
                 = (docs[i := claimed (docs ! i)], Some (claimed (docs ! i)))
             \<and> external (claimed (docs ! i))
                 = \<lparr>msg_id = oid_string (doc_id (docs ! i)), msg_ack = Present (claim_token r),
                    msg_payload = doc_payload (docs ! i),
                    msg_tries = Some (case doc_tries (docs ! i) of None \<Rightarrow> 1 | Some n \<Rightarrow> n + 1)\<rparr>
             \<and> (\<not> exceeds (doc_tries (claimed (docs ! i))) (maxRetries q) \<longrightarrow>
                   Queue_get q (args_of opts) (r # rs) s
                   = Some ([Returned (Some (external (claimed (docs ! i))))],
                           with_collection s (name q) (docs[i := claimed (docs ! i)])))"
    by blast
next
  assume "\<forall>d\<in>set docs. \<not> matches [DeletedNull, VisibleLte (claim_clock r)] d"
  from get_claim_none [OF this, of q opts "claim_token r" "lease_clock r"]
  have "get_claim q opts (claim_clock r) (claim_token r) (lease_clock r) (collections s (name q))
      = (collections s (name q), None)"
    unfolding docs .
  from Queue_get_nothing [OF answered this]
  show "Queue_get q (args_of opts) (r # rs) s = Some ([Returned None], s)"
    by simp
qed

theorem get_claims_oldest_visible_witness:
  "Queue_get jobs (args_of None) [first_round] three_docs
     = Some ([Returned (Some \<lparr>msg_id = ''000000000000000000000000'', msg_ack = Present ''token-1'',
                msg_payload = JString ''a'', msg_tries = Some 1\<rparr>)],
             with_collection three_docs ''jobs''
               [pending_doc\<lparr>doc_tries := Some 1, doc_ack := Present ''token-1'',
                  doc_visible := Some (Date 31000)\<rparr>, leased_doc, done_doc])
   \<and> Queue_get jobs (args_of None) [first_round] empty_store = Some ([Returned None], empty_store)"
proof -
  let ?docs = "[pending_doc, leased_doc, done_doc]"
  have docs: "?docs = collections three_docs (name jobs)"
    by (simp add: three_docs_def jobs_def)
  have answered: "claim_fault first_round = None"
    by (simp add: first_round_def)
  note fact = get_claims_oldest_visible [OF docs refl refl answered, where opts = None
      and rs = "[]"]
  have pending: "matches [DeletedNull, VisibleLte (claim_clock first_round)] pending_doc"
    by (simp add: matches_def pending_doc_def first_round_def)
  with fact obtain i where i: "i < length ?docs"
    and least: "\<forall>d\<in>set ?docs. matches [DeletedNull, VisibleLte (claim_clock first_round)] d
        \<longrightarrow> doc_id (?docs ! i) \<le> doc_id d"
    and got: "\<not> exceeds (doc_tries ((?docs ! i)\<lparr>
            doc_tries := Some (case doc_tries (?docs ! i) of None \<Rightarrow> 1 | Some n \<Rightarrow> n + 1),
            doc_ack := Present (claim_token first_round),
            doc_visible := Some (Date (lease_clock first_round + visibility jobs * 1000))\<rparr>))
          (maxRetries jobs) \<longrightarrow>
        Queue_get jobs (args_of None) [first_round] three_docs
        = Some ([Returned (Some (external ((?docs ! i)\<lparr>
            doc_tries := Some (case doc_tries (?docs ! i) of None \<Rightarrow> 1 | Some n \<Rightarrow> n + 1),
            doc_ack := Present (claim_token first_round),
            doc_visible := Some (Date (lease_clock first_round + visibility jobs * 1000))\<rparr>)))],
           with_collection three_docs (name jobs) (?docs[i := (?docs ! i)\<lparr>
            doc_tries := Some (case doc_tries (?docs ! i) of None \<Rightarrow> 1 | Some n \<Rightarrow> n + 1),
            doc_ack := Present (claim_token first_round),
            doc_visible := Some (Date (lease_clock first_round + visibility jobs * 1000))\<rparr>]))"
    by auto
  from least pending have "doc_id (?docs ! i) \<le> doc_id pending_doc"
    by simp
  with i have "i = 0"
    by (auto simp: less_Suc_eq pending_doc_def leased_doc_def done_doc_def)
  have hex: "oid_string 0 = ''000000000000000000000000''"
    by code_simp
  from got have first: "Queue_get jobs (args_of None) [first_round] three_docs
     = Some ([Returned (Some \<lparr>msg_id = ''000000000000000000000000'', msg_ack = Present ''token-1'',
                msg_payload = JString ''a'', msg_tries = Some 1\<rparr>)],
             with_collection three_docs ''jobs''
               [pending_doc\<lparr>doc_tries := Some 1, doc_ack := Present ''token-1'',
                  doc_visible := Some (Date 31000)\<rparr>, leased_doc, done_doc])"
    unfolding \<open>i = 0\<close>
    by (simp add: jobs_def external_def hex pending_doc_def first_round_def)
  have "collections empty_store (name jobs) = []"
    by (simp add: empty_store_def)
  from get_claims_oldest_visible [OF this [symmetric] refl refl answered, where opts = None
      and rs = "[]"]
  have "Queue_get jobs (args_of None) [first_round] empty_store = Some ([Returned None], empty_store)"
    by simp
  with first show ?thesis by simp
qed

section \<open>ping and ack: the life of a token\<close>

lemma holds_leaseD:
  assumes "holds_lease docs token i deadline"
  shows "i < length docs" "doc_ack (docs ! i) = Present token" "field_null (doc_deleted (docs ! i))"
    "doc_visible (docs ! i) = Some (Date deadline)"
    "\<And>j. j < length docs \<Longrightarrow> doc_ack (docs ! j) = Present token \<Longrightarrow> j = i"
  using assms unfolding holds_lease_def by blast+

lemma matches_lease:
  "matches [AckEq token, VisibleGt clock, DeletedNull] d
     \<longleftrightarrow> doc_ack d = Present token \<and> stamp_gt (doc_visible d) clock \<and> field_null (doc_deleted d)"
  by (simp add: matches_def)

lemma lease_found:
  assumes lease: "holds_lease docs token i deadline"
  shows "find_first (matches [AckEq token, VisibleGt clock, DeletedNull]) docs
     = (if clock < deadline then Some i else None)"
proof (cases "clock < deadline")
  case True
  have "find_first (matches [AckEq token, VisibleGt clock, DeletedNull]) docs = Some i"
  proof (rule find_first_unique)
    show "i < length docs" by (rule holds_leaseD(1) [OF lease])
    show "matches [AckEq token, VisibleGt clock, DeletedNull] (docs ! i)"
      unfolding matches_lease using holds_leaseD(2,3,4) [OF lease] True by simp
    show "\<forall>j<length docs. matches [AckEq token, VisibleGt clock, DeletedNull] (docs ! j) \<longrightarrow> j = i"
      unfolding matches_lease using holds_leaseD(5) [OF lease] by blast
  qed
  with True show ?thesis by simp
next
  case False
  have "\<not> matches [AckEq token, VisibleGt clock, DeletedNull] d" if "d \<in> set docs" for d
  proof
    assume m: "matches [AckEq token, VisibleGt clock, DeletedNull] d"
    from that obtain j where j: "j < length docs" "docs ! j = d"
      unfolding in_set_conv_nth by blast
    from m have ack: "doc_ack (docs ! j) = Present token" and gt: "stamp_gt (doc_visible (docs ! j)) clock"
      unfolding matches_lease j(2) [symmetric] by simp_all
    from holds_leaseD(5) [OF lease j(1) ack] have "j = i" .
    with gt holds_leaseD(4) [OF lease] False show False by simp
  qed
  then have "find_first (matches [AckEq token, VisibleGt clock, DeletedNull]) docs = None"
    unfolding find_first_None by blast
  with False show ?thesis by simp
qed


lemma retired_not_found:
  assumes retired: "\<And>j. j < length docs \<Longrightarrow> doc_ack (docs ! j) = Present token
      \<Longrightarrow> \<not> field_null (doc_deleted (docs ! j))"
  shows "find_first (matches [AckEq token, VisibleGt clock, DeletedNull]) docs = None"
proof -
  have "\<not> matches [AckEq token, VisibleGt clock, DeletedNull] d" if "d \<in> set docs" for d
  proof
    assume m: "matches [AckEq token, VisibleGt clock, DeletedNull] d"
    from that obtain j where j: "j < length docs" "docs ! j = d"
      unfolding in_set_conv_nth by blast
    from m have "doc_ack (docs ! j) = Present token" "field_null (doc_deleted (docs ! j))"
      unfolding matches_lease j(2) [symmetric] by simp_all
    with retired [OF j(1)] show False by simp
  qed
  then show ?thesis unfolding find_first_None by blast
qed

lemma ack_live:
  assumes lease: "holds_lease (collections s (name q)) token i deadline" and live: "clock < deadline"
  shows "Queue_ack q token True None clock clock' s
     = (Returned (oid_string (doc_id (collections s (name q) ! i))),
        with_collection s (name q)
          ((collections s (name q))[i := (collections s (name q) ! i)\<lparr>doc_deleted := Present (Date clock')\<rparr>]))"
proof -
  from lease_found [OF lease, of clock] live
  have "select [AckEq token, VisibleGt clock, DeletedNull] Natural (collections s (name q)) = Some i"
    by simp
  then show ?thesis
    unfolding Queue_ack_proper Let_def findOneAndUpdate_def
    by (simp add: apply_update_def)
qed

lemma ack_stale:
  assumes "find_first (matches [AckEq token, VisibleGt clock, DeletedNull]) (collections s (name q)) = None"
  shows "Queue_ack q token True None clock clock' s
     = (Failed (Error (''Queue.ack(): Unidentified ack : '' @ token)), s)"
proof -
  from assms
  have "select [AckEq token, VisibleGt clock, DeletedNull] Natural (collections s (name q)) = None"
    by simp
  then show ?thesis
    unfolding Queue_ack_proper Let_def findOneAndUpdate_def by simp
qed

lemma ping_live:
  assumes lease: "holds_lease (collections s (name q)) token i deadline" and live: "clock < deadline"
  shows "Queue_ping q token (args_of opts) None clock clock' s
     = (Returned (oid_string (doc_id (collections s (name q) ! i))),
        with_collection s (name q)
          ((collections s (name q))[i := (collections s (name q) ! i)\<lparr>doc_visible :=
             Some (Date (clock' + num_or (case opts of None \<Rightarrow> None
                | Some given \<Rightarrow> ping_visibility given) (visibility q) * 1000))\<rparr>]))"
proof -
  from lease_found [OF lease, of clock] live
  have "select [AckEq token, VisibleGt clock, DeletedNull] Natural (collections s (name q)) = Some i"
    by simp
  then show ?thesis
    unfolding Queue_ping_proper Let_def findOneAndUpdate_def
    by (simp add: apply_update_def nowPlusSecs_def)
qed

lemma ping_stale:
  assumes "find_first (matches [AckEq token, VisibleGt clock, DeletedNull]) (collections s (name q)) = None"
  shows "Queue_ping q token (args_of opts) None clock clock' s
     = (Failed (Error (''Queue.ping(): Unidentified ack  : '' @ token)), s)"
proof -
  from assms
  have "select [AckEq token, VisibleGt clock, DeletedNull] Natural (collections s (name q)) = None"
    by simp
  then show ?thesis
    unfolding Queue_ping_proper Let_def findOneAndUpdate_def by simp
qed


lemma lease_after_ping:
  assumes lease: "holds_lease docs token i deadline"
  shows "holds_lease (docs[i := (docs ! i)\<lparr>doc_visible := Some (Date later)\<rparr>]) token i later"
proof -
  let ?docs' = "docs[i := (docs ! i)\<lparr>doc_visible := Some (Date later)\<rparr>]"
  note i = holds_leaseD(1) [OF lease]
  have ack: "doc_ack (?docs' ! j) = doc_ack (docs ! j)" if "j < length docs" for j
    using that i by (cases "j = i") simp_all
  have "j = i" if "j < length ?docs'" "doc_ack (?docs' ! j) = Present token" for j
  proof -
    from that have "j < length docs" by simp
    with that(2) ack have "doc_ack (docs ! j) = Present token" by simp
    with \<open>j < length docs\<close> show ?thesis by (rule holds_leaseD(5) [OF lease])
  qed
  note unique = this
  have here: "doc_ack (?docs' ! i) = Present token" "field_null (doc_deleted (?docs' ! i))"
    "doc_visible (?docs' ! i) = Some (Date later)" "i < length ?docs'"
    using i holds_leaseD(2,3) [OF lease] by simp_all
  show ?thesis
    unfolding holds_lease_def
  proof (intro conjI allI impI)
    fix j
    assume "j < length ?docs'" "doc_ack (?docs' ! j) = Present token"
    then show "j = i" by (rule unique)
  qed (rule here)+
qed

lemma retired_after_ack:
  assumes lease: "holds_lease docs token i deadline"
    and j: "j < length (docs[i := (docs ! i)\<lparr>doc_deleted := Present stamp\<rparr>])"
      "doc_ack (docs[i := (docs ! i)\<lparr>doc_deleted := Present stamp\<rparr>] ! j) = Present token"
  shows "\<not> field_null (doc_deleted (docs[i := (docs ! i)\<lparr>doc_deleted := Present stamp\<rparr>] ! j))"
proof -
  note i = holds_leaseD(1) [OF lease]
  from j(1) have len: "j < length docs" by simp
  have "doc_ack (docs ! j) = Present token"
    using j(2) len i by (cases "j = i") simp_all
  with len have "j = i" by (rule holds_leaseD(5) [OF lease])
  with i show ?thesis by simp
qed

lemma claim_grants_lease:
  assumes fresh: "\<forall>d\<in>set docs. doc_ack d \<noteq> Present token"
    and claim: "get_claim q opts t token t' docs = (docs', Some d)"
  shows "\<exists>i. holds_lease docs' token i (t' + num_or (case opts of None \<Rightarrow> None
      | Some given \<Rightarrow> get_visibility given) (visibility q) * 1000) \<and> docs' ! i = d"
proof -
  let ?u = "[IncTries 1, SetAck token, SetVisible (Date (nowPlusSecs t' (num_or
      (case opts of None \<Rightarrow> None | Some given \<Rightarrow> get_visibility given) (visibility q))))]"
  let ?deadline = "t' + num_or (case opts of None \<Rightarrow> None
      | Some given \<Rightarrow> get_visibility given) (visibility q) * 1000"
  from findOneAndUpdate_Some [OF claim [unfolded get_claim_def Let_def]]
  obtain i where i: "i < length docs" and m: "matches [DeletedNull, VisibleLte t] (docs ! i)"
    and d: "d = apply_update ?u (docs ! i)" and docs': "docs' = docs[i := d]"
    by blast
  from m have "field_null (doc_deleted (docs ! i))" by (simp add: matches_def)
  then have fields: "doc_ack d = Present token" "field_null (doc_deleted d)"
    "doc_visible d = Some (Date ?deadline)"
    unfolding d by (simp_all add: apply_update_def nowPlusSecs_def)
  have "j = i" if "j < length docs'" "doc_ack (docs' ! j) = Present token" for j
  proof (rule ccontr)
    assume "j \<noteq> i"
    with that docs' have "j < length docs" "doc_ack (docs ! j) = Present token" by simp_all
    then have "docs ! j \<in> set docs" "doc_ack (docs ! j) = Present token" by simp_all
    with fresh show False by blast
  qed
  note unique = this
  from i docs' have here: "i < length docs'" "docs' ! i = d" by simp_all
  have "holds_lease docs' token i ?deadline"
    unfolding holds_lease_def here(2)
  proof (intro conjI allI impI)
    fix j
    assume "j < length docs'" "doc_ack (docs' ! j) = Present token"
    then show "j = i" by (rule unique)
  qed (rule here(1) fields)+
  with here(2) show ?thesis by blast
qed

text \<open>
  C2. A token is live when one document carries it, not deleted, visible at \<open>deadline\<close>;
  a \<^verbatim>\<open>get\<close> whose minted token no document carried leaves its token live at the
  document it claimed (last part). For a live token: before the deadline \<^verbatim>\<open>ack\<close>
  succeeds with the message id and sets \<^verbatim>\<open>deleted\<close>, and from then on every
  \<^verbatim>\<open>ack\<close> and every \<^verbatim>\<open>ping\<close> with the token fails with the unidentified-ack error
  that ends in the token, at any clock; before the deadline \<^verbatim>\<open>ping\<close> succeeds with the
  message id and leaves the token live with the new deadline, so it can be repeated; at
  the deadline and after it both fail with that error and change nothing.
\<close>

theorem token_acks_once_before_deadline:
  assumes lease: "holds_lease (collections s (name q)) token i deadline"
  shows "(clock < deadline \<longrightarrow>
           (\<exists>s'. Queue_ack q token True None clock clock' s
                   = (Returned (oid_string (doc_id (collections s (name q) ! i))), s')
              \<and> doc_deleted (collections s' (name q) ! i) = Present (Date clock')
              \<and> (\<forall>c c'. Queue_ack q token True None c c' s'
                   = (Failed (Error (''Queue.ack(): Unidentified ack : '' @ token)), s'))
              \<and> (\<forall>given c c'. Queue_ping q token (args_of given) None c c' s'
                   = (Failed (Error (''Queue.ping(): Unidentified ack  : '' @ token)), s'))))
     \<and> (clock < deadline \<longrightarrow>
           (\<exists>s'. Queue_ping q token (args_of opts) None clock clock' s
                   = (Returned (oid_string (doc_id (collections s (name q) ! i))), s')
              \<and> holds_lease (collections s' (name q)) token i
                   (clock' + num_or (case opts of None \<Rightarrow> None
                      | Some given \<Rightarrow> ping_visibility given) (visibility q) * 1000)))
     \<and> (deadline \<le> clock \<longrightarrow>
           Queue_ack q token True None clock clock' s
             = (Failed (Error (''Queue.ack(): Unidentified ack : '' @ token)), s)
           \<and> Queue_ping q token (args_of opts) None clock clock' s
             = (Failed (Error (''Queue.ping(): Unidentified ack  : '' @ token)), s))
     \<and> (\<forall>gopts t t' docs docs' d.
           (\<forall>old\<in>set docs. doc_ack old \<noteq> Present token)
           \<and> get_claim q gopts t token t' docs = (docs', Some d) \<longrightarrow>
           (\<exists>k. holds_lease docs' token k
                   (t' + num_or (case gopts of None \<Rightarrow> None
                      | Some given \<Rightarrow> get_visibility given) (visibility q) * 1000)
              \<and> docs' ! k = d))"
proof (intro conjI impI allI)
  let ?docs = "collections s (name q)"
  assume live: "clock < deadline"
  let ?s' = "with_collection s (name q) (?docs[i := (?docs ! i)\<lparr>doc_deleted := Present (Date clock')\<rparr>])"
  note i = holds_leaseD(1) [OF lease]
  have gone: "find_first (matches [AckEq token, VisibleGt c, DeletedNull]) (collections ?s' (name q)) = None"
    for c
  proof -
    have "find_first (matches [AckEq token, VisibleGt c, DeletedNull])
        (?docs[i := (?docs ! i)\<lparr>doc_deleted := Present (Date clock')\<rparr>]) = None"
      by (rule retired_not_found) (rule retired_after_ack [OF lease], assumption+)
    then show ?thesis by simp
  qed
  have "Queue_ack q token True None clock clock' s
      = (Returned (oid_string (doc_id (?docs ! i))), ?s')"
    by (rule ack_live [OF lease live])
  moreover have "doc_deleted (collections ?s' (name q) ! i) = Present (Date clock')"
    using i by simp
  moreover have "\<forall>c c'. Queue_ack q token True None c c' ?s'
      = (Failed (Error (''Queue.ack(): Unidentified ack : '' @ token)), ?s')"
    using ack_stale [OF gone] by blast
  moreover have "\<forall>given c c'. Queue_ping q token (args_of given) None c c' ?s'
      = (Failed (Error (''Queue.ping(): Unidentified ack  : '' @ token)), ?s')"
    using ping_stale [OF gone] by blast
  ultimately show "\<exists>s'. Queue_ack q token True None clock clock' s
                   = (Returned (oid_string (doc_id (?docs ! i))), s')
              \<and> doc_deleted (collections s' (name q) ! i) = Present (Date clock')
              \<and> (\<forall>c c'. Queue_ack q token True None c c' s'
                   = (Failed (Error (''Queue.ack(): Unidentified ack : '' @ token)), s'))
              \<and> (\<forall>given c c'. Queue_ping q token (args_of given) None c c' s'
                   = (Failed (Error (''Queue.ping(): Unidentified ack  : '' @ token)), s'))"
    by blast
next
  let ?docs = "collections s (name q)"
  let ?later = "clock' + num_or (case opts of None \<Rightarrow> None
      | Some given \<Rightarrow> ping_visibility given) (visibility q) * 1000"
  assume live: "clock < deadline"
  let ?s' = "with_collection s (name q) (?docs[i := (?docs ! i)\<lparr>doc_visible := Some (Date ?later)\<rparr>])"
  have "Queue_ping q token (args_of opts) None clock clock' s = (Returned (oid_string (doc_id (?docs ! i))), ?s')"
    by (rule ping_live [OF lease live])
  moreover have "holds_lease (collections ?s' (name q)) token i ?later"
    using lease_after_ping [OF lease, of ?later] by simp
  ultimately show "\<exists>s'. Queue_ping q token (args_of opts) None clock clock' s
                   = (Returned (oid_string (doc_id (?docs ! i))), s')
              \<and> holds_lease (collections s' (name q)) token i ?later"
    by blast
next
  assume "deadline \<le> clock"
  with lease_found [OF lease, of clock]
  have none: "find_first (matches [AckEq token, VisibleGt clock, DeletedNull])
      (collections s (name q)) = None"
    by simp
  from ack_stale [OF none]
  show "Queue_ack q token True None clock clock' s
      = (Failed (Error (''Queue.ack(): Unidentified ack : '' @ token)), s)" .
  from ping_stale [OF none]
  show "Queue_ping q token (args_of opts) None clock clock' s
      = (Failed (Error (''Queue.ping(): Unidentified ack  : '' @ token)), s)" .
next
  fix gopts t t' docs docs' d
  assume "(\<forall>old\<in>set docs. doc_ack old \<noteq> Present token)
      \<and> get_claim q gopts t token t' docs = (docs', Some d)"
  then show "\<exists>k. holds_lease docs' token k
                   (t' + num_or (case gopts of None \<Rightarrow> None
                      | Some given \<Rightarrow> get_visibility given) (visibility q) * 1000)
              \<and> docs' ! k = d"
    using claim_grants_lease by blast
qed

theorem token_acks_once_before_deadline_witness:
  "map_option (\<lambda>r. (fst r, collections (snd r) ''jobs'')) (Queue_get jobs (args_of None) [first_round] three_docs)
     = Some ([Returned (Some \<lparr>msg_id = ''000000000000000000000000'', msg_ack = Present ''token-1'',
                msg_payload = JString ''a'', msg_tries = Some 1\<rparr>)],
             collections claimed_store ''jobs'')
   \<and> holds_lease (collections claimed_store (name jobs)) ''token-1'' 0 31000
   \<and> fst (Queue_ack jobs ''token-1'' True None 2000 2001 claimed_store) = Returned ''000000000000000000000000''
   \<and> fst (Queue_ack jobs ''token-1'' True None 2002 2003 (snd (Queue_ack jobs ''token-1'' True None 2000 2001 claimed_store)))
       = Failed (Error ''Queue.ack(): Unidentified ack : token-1'')
   \<and> fst (Queue_ping jobs ''token-1'' (args_of None) None 2002 2003 (snd (Queue_ack jobs ''token-1'' True None 2000 2001 claimed_store)))
       = Failed (Error ''Queue.ping(): Unidentified ack  : token-1'')
   \<and> fst (Queue_ping jobs ''token-1'' (args_of None) None 2000 2001 claimed_store) = Returned ''000000000000000000000000''
   \<and> Queue_ack jobs ''token-1'' True None 31000 31001 claimed_store
       = (Failed (Error ''Queue.ack(): Unidentified ack : token-1''), claimed_store)
   \<and> Queue_ping jobs ''token-1'' (args_of None) None 31000 31001 claimed_store
       = (Failed (Error ''Queue.ping(): Unidentified ack  : token-1''), claimed_store)"
proof -
  have got: "map_option (\<lambda>r. (fst r, collections (snd r) ''jobs''))
      (Queue_get jobs (args_of None) [first_round] three_docs)
     = Some ([Returned (Some \<lparr>msg_id = ''000000000000000000000000'', msg_ack = Present ''token-1'',
                msg_payload = JString ''a'', msg_tries = Some 1\<rparr>)],
             collections claimed_store ''jobs'')"
    by code_simp
  have lease: "holds_lease (collections claimed_store (name jobs)) ''token-1'' 0 31000"
    by code_simp
  have hex: "oid_string (doc_id (collections claimed_store (name jobs) ! 0)) = ''000000000000000000000000''"
    by code_simp
  note live = token_acks_once_before_deadline [OF lease, where clock = 2000 and clock' = 2001
      and opts = None]
  note stale = token_acks_once_before_deadline [OF lease, where clock = 31000 and clock' = 31001
      and opts = None]
  from live obtain s' where acked: "Queue_ack jobs ''token-1'' True None 2000 2001 claimed_store
        = (Returned (oid_string (doc_id (collections claimed_store (name jobs) ! 0))), s')"
    and again: "\<forall>c c'. Queue_ack jobs ''token-1'' True None c c' s'
        = (Failed (Error (''Queue.ack(): Unidentified ack : '' @ ''token-1'')), s')"
    and pinged: "\<forall>given c c'. Queue_ping jobs ''token-1'' (args_of given) None c c' s'
        = (Failed (Error (''Queue.ping(): Unidentified ack  : '' @ ''token-1'')), s')"
    by auto
  from live obtain s'' where extended: "Queue_ping jobs ''token-1'' (args_of None) None 2000 2001 claimed_store
        = (Returned (oid_string (doc_id (collections claimed_store (name jobs) ! 0))), s'')"
    by auto
  from stale have late: "Queue_ack jobs ''token-1'' True None 31000 31001 claimed_store
        = (Failed (Error (''Queue.ack(): Unidentified ack : '' @ ''token-1'')), claimed_store)"
      "Queue_ping jobs ''token-1'' (args_of None) None 31000 31001 claimed_store
        = (Failed (Error (''Queue.ping(): Unidentified ack  : '' @ ''token-1'')), claimed_store)"
    by simp_all
  show ?thesis
    using got lease late
    by (simp add: acked again pinged extended hex)
qed

section \<open>add: debounce\<close>


lemma id_of_slot_no_result [simp]:
  "id_of_slot (no_result\<lparr>modifiedCount := m\<rparr>) index = Literal ''(debounced)''"
  "id_of_slot (no_result\<lparr>upsertedIds := (upsertedIds no_result)(index \<mapsto> n)\<rparr>) index = Oid n"
  "id_of_slot (no_result\<lparr>insertedIds := (insertedIds no_result)(index \<mapsto> n)\<rparr>) index = Oid n"
  by (simp_all add: id_of_slot_def no_result_def)

lemma single_payloads:
  assumes "\<forall>elems. payload \<noteq> JArray elems"
  shows "(case payload of JArray elems \<Rightarrow> elems | _ \<Rightarrow> [payload]) = [payload]"
    "(case payload of JArray elems \<Rightarrow> False | _ \<Rightarrow> True) = True"
  using assms by (cases payload; simp)+

lemma add_single_debounced:
  assumes single: "\<forall>elems. payload \<noteq> JArray elems"
    and key: "debounce_key opts = Some k"
    and found: "find_first (matches [AckNull, DeletedNull, DebounceEq k]) (collections s (name q)) = Some i"
  shows "fst (Queue_add q payload (args_of opts) None clock s) = Returned (JString ''(debounced)'')"
    "collections (snd (Queue_add q payload (args_of opts) None clock s))
       = (collections s)(name q := (collections s (name q))[i := (collections s (name q) ! i)
            \<lparr>doc_visible := Some (add_visible q opts clock), doc_payload := payload\<rparr>])"
    "next_oid (snd (Queue_add q payload (args_of opts) None clock s)) = next_oid s"
  unfolding Queue_add_proper Let_def single_payloads [OF single] key add_operation_def bulkWrite_def
  using found by (simp_all add: with_collection_def apply_update_def)

lemma add_single_upserted:
  assumes single: "\<forall>elems. payload \<noteq> JArray elems"
    and key: "debounce_key opts = Some k"
    and found: "find_first (matches [AckNull, DeletedNull, DebounceEq k]) (collections s (name q)) = None"
  shows "fst (Queue_add q payload (args_of opts) None clock s) = Returned (JString (oid_string (next_oid s)))"
    "collections (snd (Queue_add q payload (args_of opts) None clock s))
       = (collections s)(name q := collections s (name q) @
            [\<lparr>doc_id = next_oid s, doc_payload = payload,
              doc_visible = Some (add_visible q opts clock), doc_ack = Null, doc_tries = None,
              doc_deleted = Null, doc_debounce = Some k\<rparr>])"
    "next_oid (snd (Queue_add q payload (args_of opts) None clock s)) = Suc (next_oid s)"
  unfolding Queue_add_proper Let_def single_payloads [OF single] key add_operation_def bulkWrite_def
  using found by (simp_all add: with_collection_def apply_update_def upsert_doc_def blank_def)


lemma add_collection:
  "collections (snd (Queue_add q payload (args_of opts) None clock s)) (name q)
     = fst (fst (bulkWrite (map (add_operation (debounce_key opts) (add_visible q opts clock))
         (case payload of JArray elems \<Rightarrow> elems | _ \<Rightarrow> [payload]))
         (collections s (name q), next_oid s)))"
  by (simp add: Queue_add_proper Let_def with_collection_def bulkWrite_def)



lemma matches_debounce:
  "matches [AckNull, DeletedNull, DebounceEq k] d
     \<longleftrightarrow> field_null (doc_ack d) \<and> field_null (doc_deleted d) \<and> doc_debounce d = Some k"
  by (simp add: matches_def)










section \<open>add: the result\<close>

lemma add_single_inserted:
  assumes single: "\<forall>elems. payload \<noteq> JArray elems"
    and key: "debounce_key opts = None"
  shows "fst (Queue_add q payload (args_of opts) None clock s) = Returned (JString (oid_string (next_oid s)))"
    "collections (snd (Queue_add q payload (args_of opts) None clock s))
       = (collections s)(name q := collections s (name q) @
            [\<lparr>doc_id = next_oid s, doc_payload = payload,
              doc_visible = Some (add_visible q opts clock), doc_ack = Absent, doc_tries = None,
              doc_deleted = Absent, doc_debounce = None\<rparr>])"
    "next_oid (snd (Queue_add q payload (args_of opts) None clock s)) = Suc (next_oid s)"
  unfolding Queue_add_proper Let_def single_payloads [OF single] key add_operation_def bulkWrite_def
  by (simp_all add: with_collection_def apply_update_def blank_def)

lemma upt_from_zero: "[0..<Suc n] = 0 # map Suc [0..<n]"
  by (simp add: upt_conv_Cons map_Suc_upt del: upt_Suc)

lemma map_index_conv:
  "map_index f i xs = map (\<lambda>k. f (i + k) (xs ! k)) [0..<length xs]"
proof (induction xs arbitrary: i)
  case Nil
  then show ?case by simp
next
  case (Cons x xs)
  have "[0..<length (x # xs)] = 0 # map Suc [0..<length xs]"
    using upt_from_zero [of "length xs"] by simp
  then show ?case
    by (simp add: Cons.IH comp_def del: upt_Suc)
qed

lemma inserts_docs:
  "fst (bulk_from index (map (\<lambda>p. InsertOne (u p)) ps) ((docs, n), r))
     = (docs @ map (\<lambda>k. apply_update (u (ps ! k)) (blank (n + k))) [0..<length ps], n + length ps)"
proof (induction ps arbitrary: index docs n r)
  case Nil
  then show ?case by simp
next
  case (Cons p ps)
  have "[0..<length (p # ps)] = 0 # map Suc [0..<length ps]"
    using upt_from_zero [of "length ps"] by simp
  then show ?case
    by (simp add: Cons.IH comp_def del: upt_Suc)
qed

lemma inserts_ids:
  "insertedIds (snd (bulk_from index (map (\<lambda>p. InsertOne (u p)) ps) ((docs, n), r))) x
     = (if index \<le> x \<and> x < index + length ps then Some (n + (x - index)) else insertedIds r x)"
proof (induction ps arbitrary: index docs n r)
  case Nil
  then show ?case by auto
next
  case (Cons p ps)
  show ?case
    by (simp add: Cons.IH) (auto simp: Suc_diff_le)
qed

lemma inserted_slots:
  assumes "k < length ps"
  shows "id_of_slot (snd (bulk_from 0 (map (\<lambda>p. InsertOne (u p)) ps) ((docs, n), r))) k = Oid (n + k)"
  using assms by (simp add: id_of_slot_def inserts_ids)


lemma add_batch_inserted:
  assumes key: "debounce_key opts = None" and some: "ps \<noteq> []"
  shows "fst (Queue_add q (JArray ps) (args_of opts) None clock s)
       = Returned (JString (join_commas (map (\<lambda>k. oid_string (next_oid s + k)) [0..<length ps])))"
    "collections (snd (Queue_add q (JArray ps) (args_of opts) None clock s)) (name q)
       = collections s (name q) @
           map (\<lambda>k. \<lparr>doc_id = next_oid s + k, doc_payload = ps ! k,
                   doc_visible = Some (add_visible q opts clock), doc_ack = Absent,
                   doc_tries = None, doc_deleted = Absent, doc_debounce = None\<rparr>) [0..<length ps]"
proof -
  let ?u = "\<lambda>p. [SetVisible (add_visible q opts clock), SetPayload p]"
  let ?st = "((collections s (name q), next_oid s), no_result)"
  have ops: "map (add_operation (debounce_key opts) (add_visible q opts clock)) ps
      = map (\<lambda>p. InsertOne (?u p)) ps"
    unfolding key by (simp add: add_operation_def)
  have "map_index (\<lambda>index p. id_of_slot (snd (bulk_from 0 (map (\<lambda>p. InsertOne (?u p)) ps) ?st)) index) 0 ps
      = map (\<lambda>k. Oid (next_oid s + k)) [0..<length ps]"
    unfolding map_index_conv by (rule map_cong) (simp_all add: inserted_slots)
  then show "fst (Queue_add q (JArray ps) (args_of opts) None clock s)
       = Returned (JString (join_commas (map (\<lambda>k. oid_string (next_oid s + k)) [0..<length ps])))"
    using some unfolding Queue_add_proper Let_def bulkWrite_def
    by (simp add: ops comp_def)
  show "collections (snd (Queue_add q (JArray ps) (args_of opts) None clock s)) (name q)
       = collections s (name q) @
           map (\<lambda>k. \<lparr>doc_id = next_oid s + k, doc_payload = ps ! k,
                   doc_visible = Some (add_visible q opts clock), doc_ack = Absent,
                   doc_tries = None, doc_deleted = Absent, doc_debounce = None\<rparr>) [0..<length ps]"
    unfolding add_collection bulkWrite_def
    by (simp add: ops inserts_docs apply_update_def blank_def)
qed

lemma upsert_keeps_match:
  "matches [AckNull, DeletedNull, DebounceEq k] (apply_update [SetVisible v, SetPayload p] d)
     = matches [AckNull, DeletedNull, DebounceEq k] d"
  by (simp add: matches_debounce apply_update_def)

lemma upserts_ids:
  assumes "\<exists>d\<in>set docs. matches [AckNull, DeletedNull, DebounceEq k] d"
  shows "insertedIds (snd (bulk_from index
           (map (\<lambda>p. UpdateOne [AckNull, DeletedNull, DebounceEq k] [SetVisible v, SetPayload p] True) ps)
           ((docs, n), r))) = insertedIds r
     \<and> upsertedIds (snd (bulk_from index
           (map (\<lambda>p. UpdateOne [AckNull, DeletedNull, DebounceEq k] [SetVisible v, SetPayload p] True) ps)
           ((docs, n), r))) = upsertedIds r"
  using assms
proof (induction ps arbitrary: index docs r)
  case Nil
  then show ?case by simp
next
  case (Cons p ps)
  let ?f = "[AckNull, DeletedNull, DebounceEq k]"
  let ?u = "[SetVisible v, SetPayload p]"
  from Cons.prems have "find_first (matches ?f) docs \<noteq> None"
    unfolding find_first_None by blast
  then obtain i where i: "find_first (matches ?f) docs = Some i" by blast
  note at = find_first_Some [OF i]
  let ?docs' = "docs[i := apply_update ?u (docs ! i)]"
  from at have "?docs' ! i \<in> set ?docs'" "matches ?f (?docs' ! i)"
    by (simp_all add: upsert_keeps_match set_update_memI)
  then have "\<exists>d\<in>set ?docs'. matches ?f d" by blast
  from Cons.IH [OF this] i show ?case by simp
qed

lemma id_of_slot_cong:
  "insertedIds a = insertedIds b \<Longrightarrow> upsertedIds a = upsertedIds b
     \<Longrightarrow> id_of_slot a x = id_of_slot b x"
  by (simp add: id_of_slot_def cong: option.case_cong)


lemma add_batch_result:
  assumes "ps \<noteq> []"
  shows "fst (Queue_add q (JArray ps) (args_of opts) None clock s)
     = Returned (JString (join_commas (map slot_string (map_index
         (\<lambda>index p. id_of_slot (snd (bulkWrite
            (map (add_operation (debounce_key opts) (add_visible q opts clock)) ps)
            (collections s (name q), next_oid s))) index) 0 ps))))"
  using assms by (simp add: Queue_add_proper Let_def)

lemma add_batch_debounced:
  assumes key: "debounce_key opts = Some k"
  shows "fst (Queue_add q (JArray (p # rest)) (args_of opts) None clock s)
       = Returned (JString (join_commas
           ((if \<exists>d\<in>set (collections s (name q)). matches [AckNull, DeletedNull, DebounceEq k] d
             then ''(debounced)'' else oid_string (next_oid s))
            # replicate (length rest) ''(debounced)'')))"
proof -
  let ?f = "[AckNull, DeletedNull, DebounceEq k]"
  let ?v = "add_visible q opts clock"
  let ?upd = "\<lambda>p. UpdateOne ?f [SetVisible ?v, SetPayload p] True"
  let ?docs = "collections s (name q)"
  let ?st1 = "bulk_step (?upd p) 0 ((?docs, next_oid s), no_result)"
  let ?res = "snd (bulk_from (Suc 0) (map ?upd rest) ?st1)"
  have ops: "map (add_operation (debounce_key opts) ?v) (p # rest) = ?upd p # map ?upd rest"
    unfolding key by (simp add: add_operation_def)
  obtain docs1 n1 r1 where st1: "?st1 = ((docs1, n1), r1)"
    by (cases ?st1) auto
  have first: "(\<exists>d\<in>set docs1. matches ?f d)
      \<and> id_of_slot r1 0 = (if \<exists>d\<in>set ?docs. matches ?f d then Literal ''(debounced)''
                              else Oid (next_oid s))
      \<and> (\<forall>j. id_of_slot r1 (Suc j) = Literal ''(debounced)'')"
  proof (cases "find_first (matches ?f) ?docs")
    case None
    then have no: "\<not> (\<exists>d\<in>set ?docs. matches ?f d)"
      unfolding find_first_None by blast
    from None st1 have docs1: "docs1 = ?docs @ [upsert_doc ?f [SetVisible ?v, SetPayload p] (next_oid s)]"
      and r1: "r1 = no_result\<lparr>upsertedIds := (upsertedIds no_result)(0 \<mapsto> next_oid s)\<rparr>"
      by simp_all
    have "matches ?f (upsert_doc ?f [SetVisible ?v, SetPayload p] (next_oid s))"
      by (simp add: upsert_doc_def upsert_keeps_match) (simp add: matches_debounce blank_def)
    with docs1 have "\<exists>d\<in>set docs1. matches ?f d" by simp
    moreover have "id_of_slot r1 0 = Oid (next_oid s)"
      "\<forall>j. id_of_slot r1 (Suc j) = Literal ''(debounced)''"
      unfolding r1 by (simp_all add: id_of_slot_def no_result_def)
    ultimately show ?thesis using no by simp
  next
    case (Some i)
    note at = find_first_Some [OF Some]
    then have yes: "\<exists>d\<in>set ?docs. matches ?f d"
      using nth_mem by blast
    from Some st1
    have docs1: "docs1 = ?docs[i := apply_update [SetVisible ?v, SetPayload p] (?docs ! i)]"
      and r1: "insertedIds r1 = insertedIds no_result" "upsertedIds r1 = upsertedIds no_result"
      by auto
    from at have "docs1 ! i \<in> set docs1" "matches ?f (docs1 ! i)"
      unfolding docs1 by (simp_all add: upsert_keeps_match set_update_memI)
    then have "\<exists>d\<in>set docs1. matches ?f d" by blast
    moreover have "id_of_slot r1 x = Literal ''(debounced)''" for x
      using r1 by (simp add: id_of_slot_def no_result_def)
    ultimately show ?thesis using yes by simp
  qed
  from upserts_ids [of docs1 k "Suc 0" ?v rest n1 r1] first
  have same: "id_of_slot ?res x = id_of_slot r1 x" for x
    unfolding st1 by (intro id_of_slot_cong) simp_all
  have "map_index (\<lambda>index p. id_of_slot ?res index) 0 (p # rest)
      = id_of_slot ?res 0 # map_index (\<lambda>index p. id_of_slot ?res index) (Suc 0) rest"
    by (simp only: map_index.simps)
  also have "\<dots> = id_of_slot r1 0 # map (\<lambda>j. id_of_slot r1 (Suc 0 + j)) [0..<length rest]"
    unfolding map_index_conv same ..
  also have "\<dots> = (if \<exists>d\<in>set ?docs. matches ?f d then Literal ''(debounced)''
                     else Oid (next_oid s))
        # replicate (length rest) (Literal ''(debounced)'')"
    using first by (simp add: map_replicate_const del: upt_Suc)
  finally have "map_index (\<lambda>index p. id_of_slot ?res index) 0 (p # rest)
      = (if \<exists>d\<in>set ?docs. matches ?f d then Literal ''(debounced)'' else Oid (next_oid s))
        # replicate (length rest) (Literal ''(debounced)'')" .
  note ids = this
  have res: "snd (bulkWrite (map (add_operation (debounce_key opts) ?v) (p # rest))
      (?docs, next_oid s)) = ?res"
    unfolding bulkWrite_def ops by (simp only: bulk_from.simps)
  have "p # rest \<noteq> []" by simp
  from add_batch_result [OF this, of q opts clock s]
  have "fst (Queue_add q (JArray (p # rest)) (args_of opts) None clock s)
     = Returned (JString (join_commas (map slot_string
         ((if \<exists>d\<in>set ?docs. matches ?f d then Literal ''(debounced)'' else Oid (next_oid s))
          # replicate (length rest) (Literal ''(debounced)'')))))"
    unfolding res ids .
  then show ?thesis by simp
qed

text \<open>
  C6, as stated, fails for a batch: \<^verbatim>\<open>add\<close> hands \<^verbatim>\<open>'' + ids\<close> to the callback,
  which for the array \<^verbatim>\<open>ids\<close> is one string, the identifiers joined by commas, not an
  array of identifiers.
\<close>

theorem add_batch_is_string_counterexample:
  "fst (Queue_add jobs (JArray [JString ''x'', JString ''y'']) (args_of None) None 1000 empty_store)
     = Returned (JString ''000000000000000000000000,000000000000000000000001'')
   \<and> fst (Queue_add jobs (JArray [JString ''x'', JString ''y'']) (args_of None) None 1000 empty_store)
     \<noteq> Returned (JArray [JString ''000000000000000000000000'',
                               JString ''000000000000000000000001''])"
  by code_simp

text \<open>
  C6, amended. For a payload that is not an array the result is a string: the identifier
  of the document inserted (no debounce key, or a key that no document without \<^verbatim>\<open>ack\<close>
  and \<^verbatim>\<open>deleted\<close> carries), which is appended to the collection with the payload, or
  \<^verbatim>\<open>(debounced)\<close> when the upsert matched a document, and then no document is added.
  For an array the result is one string, the entries of the elements in their order,
  joined by commas: without a debounce key the identifiers of the documents appended for
  the elements, one for each in order; with a debounce key the entry of the first element
  (as for a single payload) followed by \<^verbatim>\<open>(debounced)\<close> for every later element.
\<close>

theorem add_result_ids:
  assumes docs: "docs = collections s (name q)"
  shows "((\<forall>elems. payload \<noteq> JArray elems) \<and> debounce_key opts = None \<longrightarrow>
            fst (Queue_add q payload (args_of opts) None clock s) = Returned (JString (oid_string (next_oid s)))
            \<and> (\<exists>d. collections (snd (Queue_add q payload (args_of opts) None clock s)) (name q) = docs @ [d]
                  \<and> doc_id d = next_oid s \<and> doc_payload d = payload))
     \<and> ((\<forall>elems. payload \<noteq> JArray elems) \<and> debounce_key opts = Some k
          \<and> (\<forall>d\<in>set docs. \<not> matches [AckNull, DeletedNull, DebounceEq k] d) \<longrightarrow>
            fst (Queue_add q payload (args_of opts) None clock s) = Returned (JString (oid_string (next_oid s)))
            \<and> (\<exists>d. collections (snd (Queue_add q payload (args_of opts) None clock s)) (name q) = docs @ [d]
                  \<and> doc_id d = next_oid s \<and> doc_payload d = payload))
     \<and> ((\<forall>elems. payload \<noteq> JArray elems) \<and> debounce_key opts = Some k
          \<and> (\<exists>d\<in>set docs. matches [AckNull, DeletedNull, DebounceEq k] d) \<longrightarrow>
            fst (Queue_add q payload (args_of opts) None clock s) = Returned (JString ''(debounced)'')
            \<and> length (collections (snd (Queue_add q payload (args_of opts) None clock s)) (name q)) = length docs)
     \<and> (ps \<noteq> [] \<and> debounce_key opts = None \<longrightarrow>
            fst (Queue_add q (JArray ps) (args_of opts) None clock s)
              = Returned (JString (join_commas
                  (map (\<lambda>j. oid_string (next_oid s + j)) [0..<length ps])))
            \<and> (\<exists>new. collections (snd (Queue_add q (JArray ps) (args_of opts) None clock s)) (name q) = docs @ new
                  \<and> length new = length ps
                  \<and> (\<forall>j<length ps. doc_id (new ! j) = next_oid s + j
                         \<and> doc_payload (new ! j) = ps ! j)))
     \<and> (debounce_key opts = Some k \<longrightarrow>
            fst (Queue_add q (JArray (p # rest)) (args_of opts) None clock s)
              = Returned (JString (join_commas
                  ((if \<exists>d\<in>set docs. matches [AckNull, DeletedNull, DebounceEq k] d
                    then ''(debounced)'' else oid_string (next_oid s))
                   # replicate (length rest) ''(debounced)''))))"
proof -
  have one: "fst (Queue_add q payload (args_of opts) None clock s) = Returned (JString (oid_string (next_oid s)))
      \<and> (\<exists>d. collections (snd (Queue_add q payload (args_of opts) None clock s)) (name q) = docs @ [d]
            \<and> doc_id d = next_oid s \<and> doc_payload d = payload)"
    if "(\<forall>elems. payload \<noteq> JArray elems) \<and> debounce_key opts = None"
  proof -
    from that have single: "\<forall>elems. payload \<noteq> JArray elems" and key: "debounce_key opts = None"
      by blast+
    note added = add_single_inserted [OF single key, of q clock s]
    from added(2) have "collections (snd (Queue_add q payload (args_of opts) None clock s)) (name q)
        = docs @ [\<lparr>doc_id = next_oid s, doc_payload = payload,
              doc_visible = Some (add_visible q opts clock), doc_ack = Absent, doc_tries = None,
              doc_deleted = Absent, doc_debounce = None\<rparr>]"
      unfolding docs by simp
    with added(1) show ?thesis by simp
  qed
  have two: "fst (Queue_add q payload (args_of opts) None clock s) = Returned (JString (oid_string (next_oid s)))
      \<and> (\<exists>d. collections (snd (Queue_add q payload (args_of opts) None clock s)) (name q) = docs @ [d]
            \<and> doc_id d = next_oid s \<and> doc_payload d = payload)"
    if "(\<forall>elems. payload \<noteq> JArray elems) \<and> debounce_key opts = Some k
          \<and> (\<forall>d\<in>set docs. \<not> matches [AckNull, DeletedNull, DebounceEq k] d)"
  proof -
    from that have single: "\<forall>elems. payload \<noteq> JArray elems" and key: "debounce_key opts = Some k"
      and none: "find_first (matches [AckNull, DeletedNull, DebounceEq k]) (collections s (name q)) = None"
      unfolding find_first_None docs by blast+
    note added = add_single_upserted [OF single key none, of clock]
    from added(2) have "collections (snd (Queue_add q payload (args_of opts) None clock s)) (name q)
        = docs @ [\<lparr>doc_id = next_oid s, doc_payload = payload,
              doc_visible = Some (add_visible q opts clock), doc_ack = Null, doc_tries = None,
              doc_deleted = Null, doc_debounce = Some k\<rparr>]"
      unfolding docs by simp
    with added(1) show ?thesis by simp
  qed
  have three: "fst (Queue_add q payload (args_of opts) None clock s) = Returned (JString ''(debounced)'')
      \<and> length (collections (snd (Queue_add q payload (args_of opts) None clock s)) (name q)) = length docs"
    if "(\<forall>elems. payload \<noteq> JArray elems) \<and> debounce_key opts = Some k
          \<and> (\<exists>d\<in>set docs. matches [AckNull, DeletedNull, DebounceEq k] d)"
  proof -
    from that have single: "\<forall>elems. payload \<noteq> JArray elems" and key: "debounce_key opts = Some k"
      and "find_first (matches [AckNull, DeletedNull, DebounceEq k]) (collections s (name q)) \<noteq> None"
      unfolding find_first_None docs by blast+
    then obtain i where
      "find_first (matches [AckNull, DeletedNull, DebounceEq k]) (collections s (name q)) = Some i"
      by blast
    note added = add_single_debounced [OF single key this, of clock]
    from added(2) have "length (collections (snd (Queue_add q payload (args_of opts) None clock s)) (name q))
        = length docs"
      unfolding docs by simp
    with added(1) show ?thesis by simp
  qed
  have four: "fst (Queue_add q (JArray ps) (args_of opts) None clock s)
        = Returned (JString (join_commas (map (\<lambda>j. oid_string (next_oid s + j)) [0..<length ps])))
      \<and> (\<exists>new. collections (snd (Queue_add q (JArray ps) (args_of opts) None clock s)) (name q) = docs @ new
            \<and> length new = length ps
            \<and> (\<forall>j<length ps. doc_id (new ! j) = next_oid s + j \<and> doc_payload (new ! j) = ps ! j))"
    if "ps \<noteq> [] \<and> debounce_key opts = None"
  proof -
    from that have some: "ps \<noteq> []" and key: "debounce_key opts = None" by blast+
    note added = add_batch_inserted [OF key some, of q clock s]
    let ?new = "map (\<lambda>k. \<lparr>doc_id = next_oid s + k, doc_payload = ps ! k,
                   doc_visible = Some (add_visible q opts clock), doc_ack = Absent,
                   doc_tries = None, doc_deleted = Absent, doc_debounce = None\<rparr>) [0..<length ps]"
    have "length ?new = length ps"
      "\<forall>j<length ps. doc_id (?new ! j) = next_oid s + j \<and> doc_payload (?new ! j) = ps ! j"
      by simp_all
    with added(2) [folded docs] added(1) show ?thesis by blast
  qed
  have five: "fst (Queue_add q (JArray (p # rest)) (args_of opts) None clock s)
        = Returned (JString (join_commas
            ((if \<exists>d\<in>set docs. matches [AckNull, DeletedNull, DebounceEq k] d
              then ''(debounced)'' else oid_string (next_oid s))
             # replicate (length rest) ''(debounced)'')))"
    if "debounce_key opts = Some k"
    unfolding docs by (rule add_batch_debounced [OF that])
  from one two three four five show ?thesis by blast
qed

theorem add_result_ids_witness:
  "fst (Queue_add jobs (JString ''x'') (args_of None) None 1000 three_docs)
     = Returned (JString ''000000000000000000000003'')
   \<and> fst (Queue_add jobs (JArray [JString ''x'', JString ''y'']) (args_of None) None 1000 three_docs)
     = Returned (JString ''000000000000000000000003,000000000000000000000004'')
   \<and> fst (Queue_add delayed (JString ''Bonjour, monde!'')
          (args_of (Some \<lparr>add_delay = None, add_debounce = Some ''greetings''\<rparr>)) None 1000 greeting_store)
     = Returned (JString ''(debounced)'')"
proof -
  note plain = add_result_ids [OF refl, where q = jobs and s = three_docs and opts = None
      and payload = "JString ''x''" and ps = "[JString ''x'', JString ''y'']" and clock = 1000]
  have key: "debounce_key None = None"
    by (simp add: debounce_key_def)
  have single: "\<forall>elems. JString ''x'' \<noteq> JArray elems"
    by simp
  have first: "oid_string (next_oid three_docs) = ''000000000000000000000003''"
    by code_simp
  have second: "oid_string (Suc (next_oid three_docs)) = ''000000000000000000000004''"
    by code_simp
  have positions: "[0..<length [JString ''x'', JString ''y'']] = [0, Suc 0]"
    by (simp add: upt_conv_Cons del: upt_Suc)
  have hex: "join_commas (map (\<lambda>j. oid_string (next_oid three_docs + j))
        [0..<length [JString ''x'', JString ''y'']])
      = ''000000000000000000000003,000000000000000000000004''"
    unfolding positions by (simp add: first second)
  from plain [THEN conjunct1] single key
  have one: "fst (Queue_add jobs (JString ''x'') (args_of None) None 1000 three_docs)
      = Returned (JString (oid_string (next_oid three_docs)))"
    by blast
  have "[JString ''x'', JString ''y''] \<noteq> []"
    by simp
  with plain [THEN conjunct2, THEN conjunct2, THEN conjunct2, THEN conjunct1] key
  have many: "fst (Queue_add jobs (JArray [JString ''x'', JString ''y'']) (args_of None) None 1000 three_docs)
      = Returned (JString (join_commas (map (\<lambda>j. oid_string (next_oid three_docs + j))
          [0..<length [JString ''x'', JString ''y'']])))"
    by blast
  let ?given = "\<lparr>add_delay = None, add_debounce = Some ''greetings''\<rparr>"
  note keyed = add_result_ids [OF refl, where q = delayed and s = greeting_store
      and opts = "Some ?given" and payload = "JString ''Bonjour, monde!''"
      and k = "''greetings''" and clock = 1000]
  have greetings: "debounce_key (Some ?given) = Some ''greetings''"
    by (simp add: debounce_key_def)
  have other: "\<forall>elems. JString ''Bonjour, monde!'' \<noteq> JArray elems"
    by simp
  have waiting: "\<exists>d\<in>set (collections greeting_store (name delayed)).
      matches [AckNull, DeletedNull, DebounceEq ''greetings''] d"
    by code_simp
  from keyed [THEN conjunct2, THEN conjunct2, THEN conjunct1] other greetings waiting
  have "fst (Queue_add delayed (JString ''Bonjour, monde!'') (args_of (Some ?given)) None 1000 greeting_store)
      = Returned (JString ''(debounced)'')"
    by blast
  with one many show ?thesis
    unfolding hex first by simp
qed

section \<open>deleted is never cleared\<close>

lemma kept_refl: "kept docs docs"
  unfolding kept_def by simp

lemma keptD:
  assumes "kept a b" "j < length a"
  shows "j < length b" "doc_id (b ! j) = doc_id (a ! j)"
    "field_exists (doc_deleted (a ! j)) \<Longrightarrow> field_exists (doc_deleted (b ! j))"
    "field_present (doc_deleted (a ! j)) \<Longrightarrow> field_present (doc_deleted (b ! j))"
  using assms unfolding kept_def by auto

lemma kept_trans:
  assumes "kept a b" "kept b c"
  shows "kept a c"
  unfolding kept_def
proof (intro conjI allI impI)
  from assms show "length a \<le> length c" unfolding kept_def by simp
next
  fix j
  assume j: "j < length a"
  note ab = keptD [OF assms(1) j]
  note bc = keptD [OF assms(2) ab(1)]
  from ab(2) bc(2) show "doc_id (c ! j) = doc_id (a ! j)" by simp
  {
    assume "field_exists (doc_deleted (a ! j))"
    then show "field_exists (doc_deleted (c ! j))" by (intro bc(3) ab(3))
  }
  {
    assume "field_present (doc_deleted (a ! j))"
    then show "field_present (doc_deleted (c ! j))" by (intro bc(4) ab(4))
  }
qed

lemma modify_keeps:
  "doc_id (modify m d) = doc_id d
   \<and> (field_exists (doc_deleted d) \<longrightarrow> field_exists (doc_deleted (modify m d)))
   \<and> (field_present (doc_deleted d) \<longrightarrow> field_present (doc_deleted (modify m d)))"
  by (cases m) simp_all

lemma apply_update_keeps:
  "doc_id (apply_update u d) = doc_id d
   \<and> (field_exists (doc_deleted d) \<longrightarrow> field_exists (doc_deleted (apply_update u d)))
   \<and> (field_present (doc_deleted d) \<longrightarrow> field_present (doc_deleted (apply_update u d)))"
  unfolding apply_update_def
proof (induction u arbitrary: d)
  case Nil
  then show ?case by simp
next
  case (Cons m u)
  from Cons.IH [of "modify m d"] modify_keeps [of m d] show ?case by simp
qed

lemma kept_update: "kept docs (docs[i := apply_update u (docs ! i)])"
  unfolding kept_def
proof (intro conjI allI impI)
  show "length docs \<le> length (docs[i := apply_update u (docs ! i)])" by simp
next
  fix j
  assume j: "j < length docs"
  show "doc_id (docs[i := apply_update u (docs ! i)] ! j) = doc_id (docs ! j)"
    using j apply_update_keeps [of u "docs ! i"] by (cases "i = j") simp_all
  {
    assume "field_exists (doc_deleted (docs ! j))"
    then show "field_exists (doc_deleted (docs[i := apply_update u (docs ! i)] ! j))"
      using j apply_update_keeps [of u "docs ! i"] by (cases "i = j") simp_all
  }
  {
    assume "field_present (doc_deleted (docs ! j))"
    then show "field_present (doc_deleted (docs[i := apply_update u (docs ! i)] ! j))"
      using j apply_update_keeps [of u "docs ! i"] by (cases "i = j") simp_all
  }
qed

lemma kept_append: "kept docs (docs @ new)"
  unfolding kept_def by (simp add: nth_append)

lemma findOneAndUpdate_kept: "kept docs (fst (findOneAndUpdate query u srt docs))"
  unfolding findOneAndUpdate_def
  by (cases "select query srt docs") (simp_all add: kept_refl kept_update)

lemma bulk_step_kept: "kept (fst (fst st)) (fst (fst (bulk_step op index st)))"
proof -
  obtain docs n r where st: "st = ((docs, n), r)" by (cases st) auto
  show ?thesis
  proof (cases op)
    case (InsertOne document)
    then show ?thesis unfolding st by (simp add: kept_append)
  next
    case (UpdateOne query u upsert)
    then show ?thesis unfolding st
      by (cases "find_first (matches query) docs")
        (simp_all add: kept_append kept_refl kept_update)
  qed
qed

lemma bulk_from_kept: "kept (fst (fst st)) (fst (fst (bulk_from index ops st)))"
proof (induction ops arbitrary: index st)
  case Nil
  then show ?case by (simp add: kept_refl)
next
  case (Cons op ops)
  from kept_trans [OF bulk_step_kept [of st op index] Cons.IH [of "bulk_step op index st" "Suc index"]]
  show ?case by simp
qed

lemma bulkWrite_kept: "kept docs (fst (fst (bulkWrite ops (docs, n))))"
  unfolding bulkWrite_def using bulk_from_kept [of "((docs, n), no_result)" 0 ops] by simp

lemma written_kept:
  "kept (collections s c)
     (collections ((with_collection s k (fst (fst (bulkWrite ops (collections s k, n)))))
        \<lparr>next_oid := m\<rparr>) c)"
  by (simp add: kept_refl bulkWrite_kept)

lemma found_kept:
  "kept (collections s c)
     (collections (with_collection s k (fst (findOneAndUpdate query u srt (collections s k)))) c)"
  by (simp add: kept_refl findOneAndUpdate_kept)

lemma add_kept:
  "kept (collections s c) (collections (snd (Queue_add q payload given fault clock s)) c)"
proof (cases "fst (arguments given) = Nothing
    \<or> (case payload of JArray elems \<Rightarrow> elems | _ \<Rightarrow> [payload]) = [] \<or> fault \<noteq> None")
  case True
  then have "snd (Queue_add q payload given fault clock s) = s"
    by (auto simp: Queue_add_def Let_def)
  then show ?thesis by (simp add: kept_refl)
next
  case False
  then have "snd (Queue_add q payload given fault clock s)
      = (with_collection s (name q)
          (fst (fst (bulkWrite
             (map (add_operation (debounce_key (fields_of (fst (arguments given))))
                (add_visible q (fields_of (fst (arguments given))) clock))
                (case payload of JArray elems \<Rightarrow> elems | _ \<Rightarrow> [payload]))
             (collections s (name q), next_oid s)))))
         \<lparr>next_oid := snd (fst (bulkWrite
             (map (add_operation (debounce_key (fields_of (fst (arguments given))))
                (add_visible q (fields_of (fst (arguments given))) clock))
                (case payload of JArray elems \<Rightarrow> elems | _ \<Rightarrow> [payload]))
             (collections s (name q), next_oid s)))\<rparr>"
    by (auto simp: Queue_add_def Let_def)
  then show ?thesis
    by (simp only: written_kept)
qed

lemma ack_kept:
  "kept (collections s c) (collections (snd (Queue_ack q token callback fault clock clock' s)) c)"
proof (cases fault)
  case (Some err)
  then show ?thesis by (simp add: Queue_ack_def kept_refl)
next
  case None
  then have "snd (Queue_ack q token callback fault clock clock' s)
      = with_collection s (name q) (fst (findOneAndUpdate [AckEq token, VisibleGt clock, DeletedNull]
          [SetDeleted (Date clock')] Natural (collections s (name q))))"
    by (simp add: Queue_ack_def Let_def split: option.splits)
  then show ?thesis
    by (simp only: found_kept)
qed

lemma ping_kept:
  "kept (collections s c) (collections (snd (Queue_ping q token given fault clock clock' s)) c)"
proof (cases "fst (arguments given) = Nothing \<or> fault \<noteq> None")
  case True
  then have "snd (Queue_ping q token given fault clock clock' s) = s"
    by (auto simp: Queue_ping_def Let_def)
  then show ?thesis by (simp add: kept_refl)
next
  case False
  then have "snd (Queue_ping q token given fault clock clock' s)
      = with_collection s (name q) (fst (findOneAndUpdate [AckEq token, VisibleGt clock, DeletedNull]
          [SetVisible (Date (nowPlusSecs clock' (num_or
             (case fields_of (fst (arguments given)) of None \<Rightarrow> None
              | Some bag \<Rightarrow> ping_visibility bag) (visibility q))))] Natural
          (collections s (name q))))"
    by (auto simp: Queue_ping_def Let_def split: option.splits)
  then show ?thesis
    by (simp only: found_kept)
qed

lemma migrate_kept:
  "kept (collections s c) (collections (snd (Queue_migrate q callback find_fault write_fault parse s)) c)"
proof -
  let ?ops = "map (addOperation parse)
      (filter (matches_or [[DeletedType2], [VisibleType2]]) (collections s (name q)))"
  show ?thesis
  proof (cases "find_fault \<noteq> None \<or> ?ops = [] \<or> write_fault \<noteq> None")
    case True
    then have "snd (Queue_migrate q callback find_fault write_fault parse s) = s"
      by (auto simp: Queue_migrate_def Let_def split: option.splits)
    then show ?thesis by (simp add: kept_refl)
  next
    case False
    then have "snd (Queue_migrate q callback find_fault write_fault parse s)
        = (with_collection s (name q) (fst (fst (bulkWrite ?ops (collections s (name q), next_oid s)))))
            \<lparr>next_oid := snd (fst (bulkWrite ?ops (collections s (name q), next_oid s)))\<rparr>"
      by (auto simp: Queue_migrate_def Let_def split: option.splits)
    then show ?thesis
      by (simp only: written_kept)
  qed
qed

lemma claim_kept:
  "kept (collections s c) (collections (with_collection s (name q)
     (fst (get_claim q opts t token t' (collections s (name q))))) c)"
  unfolding get_claim_def Let_def by (rule found_kept)

lemma add_keptD:
  "Queue_add q payload given fault clock s = (out, s') \<Longrightarrow> kept (collections s c) (collections s' c)"
  using add_kept [of s c q payload given fault clock] by simp

lemma ack_keptD:
  "Queue_ack q token callback fault clock clock' s = (out, s') \<Longrightarrow>
     kept (collections s c) (collections s' c)"
  using ack_kept [of s c q token callback fault clock clock'] by simp

lemma get_kept:
  "Queue_get q given rounds s = Some (calls, s') \<Longrightarrow> kept (collections s c) (collections s' c)"
proof (induction rounds arbitrary: given s calls s')
  case Nil
  then show ?case by (simp add: kept_refl split: if_splits)
next
  case (Cons r rs)
  let ?found = "get_claim q (fields_of (fst (arguments given))) (claim_clock r) (claim_token r)
      (lease_clock r) (collections s (name q))"
  let ?s1 = "with_collection s (name q) (fst ?found)"
  have k1: "kept (collections s c) (collections ?s1 c)"
    by (rule claim_kept)
  have after: "kept (collections s c) (collections s2 c)"
    if "kept (collections ?s1 c) (collections s2 c)" for s2
    using k1 that by (rule kept_trans)
  have "s' = s \<or> s' = ?s1
      \<or> (\<exists>token f a b out. Queue_ack q token True f a b ?s1 = (out, s'))
      \<or> (\<exists>token f a b out s2 given'. Queue_ack q token True f a b ?s1 = (out, s2)
            \<and> (\<exists>calls'. Queue_get q given' rs s2 = Some (calls', s')))
      \<or> (\<exists>dq payload f a out. Queue_add dq payload (Fn, Nothing) f a ?s1 = (out, s'))
      \<or> (\<exists>dq payload f a out s2 token f' a' b' out'.
            Queue_add dq payload (Fn, Nothing) f a ?s1 = (out, s2)
            \<and> Queue_ack q token True f' a' b' s2 = (out', s'))
      \<or> (\<exists>dq payload f a out s2 token f' a' b' out' s3 given'.
            Queue_add dq payload (Fn, Nothing) f a ?s1 = (out, s2)
            \<and> Queue_ack q token True f' a' b' s2 = (out', s3)
            \<and> (\<exists>calls'. Queue_get q given' rs s3 = Some (calls', s')))"
    using Cons.prems
    by (simp add: Let_def
        split: option.splits if_splits field.splits prod.splits outcome.splits) fast+
  then show ?case
  proof (elim disjE exE conjE)
    assume "s' = s"
    then show ?thesis by (simp add: kept_refl)
  next
    assume "s' = ?s1"
    with k1 show ?thesis by simp
  next
    fix token f a b out
    assume "Queue_ack q token True f a b ?s1 = (out, s')"
    from after [OF ack_keptD [OF this]] show ?thesis .
  next
    fix token f a b out s2 given' calls'
    assume "Queue_ack q token True f a b ?s1 = (out, s2)"
      and "Queue_get q given' rs s2 = Some (calls', s')"
    from kept_trans [OF after [OF ack_keptD [OF this(1)]] Cons.IH [OF this(2)]]
    show ?thesis .
  next
    fix dq payload f a out
    assume "Queue_add dq payload (Fn, Nothing) f a ?s1 = (out, s')"
    from after [OF add_keptD [OF this]] show ?thesis .
  next
    fix dq payload f a out s2 token f' a' b' out'
    assume "Queue_add dq payload (Fn, Nothing) f a ?s1 = (out, s2)"
      and "Queue_ack q token True f' a' b' s2 = (out', s')"
    from kept_trans [OF after [OF add_keptD [OF this(1)]] ack_keptD [OF this(2)]]
    show ?thesis .
  next
    fix dq payload f a out s2 token f' a' b' out' s3 given' calls'
    assume "Queue_add dq payload (Fn, Nothing) f a ?s1 = (out, s2)"
      and "Queue_ack q token True f' a' b' s2 = (out', s3)"
      and "Queue_get q given' rs s3 = Some (calls', s')"
    from kept_trans [OF kept_trans [OF after [OF add_keptD [OF this(1)]] ack_keptD [OF this(2)]]
        Cons.IH [OF this(3)]]
    show ?thesis .
  qed
qed

lemma step_kept: "step call s = Some s' \<Longrightarrow> kept (collections s c) (collections s' c)"
proof (cases call)
  case (Add q payload given fault clock)
  assume "step call s = Some s'"
  with Add add_kept [of s c q payload given fault clock] show ?thesis by auto
next
  case (Get q given rounds)
  assume "step call s = Some s'"
  with Get obtain calls where "Queue_get q given rounds s = Some (calls, s')" by auto
  then show ?thesis by (rule get_kept)
next
  case (Ping q token given fault clock clock')
  assume "step call s = Some s'"
  with Ping ping_kept [of s c q token given fault clock clock'] show ?thesis by auto
next
  case (Ack q token callback fault clock clock')
  assume "step call s = Some s'"
  with Ack ack_kept [of s c q token callback fault clock clock'] show ?thesis by auto
next
  case (Migrate q callback find_fault write_fault parse)
  assume "step call s = Some s'"
  with Migrate migrate_kept [of s c q callback find_fault write_fault parse] show ?thesis by auto
qed

lemma run_kept: "run calls s = Some s' \<Longrightarrow> kept (collections s c) (collections s' c)"
proof (induction calls arbitrary: s)
  case Nil
  then show ?case by (simp add: kept_refl)
next
  case (Cons call calls)
  from Cons.prems obtain s1 where s1: "step call s = Some s1" "run calls s1 = Some s'"
    by (auto split: option.splits)
  from kept_trans [OF step_kept [OF s1(1)] Cons.IH [OF s1(2)]] show ?case .
qed

text \<open>
  C8. Whatever sequence of \<^verbatim>\<open>add\<close>, \<^verbatim>\<open>get\<close>, \<^verbatim>\<open>ping\<close>, \<^verbatim>\<open>ack\<close> and
  \<^verbatim>\<open>migrate\<close> calls runs, on whatever queues, with whatever arguments and whether
  the store answers or reports an error, a document of any collection stays in the
  collection at its position and keeps its identifier; a \<^verbatim>\<open>deleted\<close> field that was
  there is there afterwards, and a \<^verbatim>\<open>deleted\<close> that had a value (the document was
  acknowledged) has a value afterwards. \<^verbatim>\<open>clean\<close> removes documents and changes none:
  every document it leaves was in the collection before.
\<close>

theorem deleted_never_cleared:
  assumes "run calls s = Some s'"
    and "i < length (collections s c)"
  shows "i < length (collections s' c)
    \<and> doc_id (collections s' c ! i) = doc_id (collections s c ! i)
    \<and> (doc_deleted (collections s c ! i) \<noteq> Absent \<longrightarrow> doc_deleted (collections s' c ! i) \<noteq> Absent)
    \<and> (\<forall>v. doc_deleted (collections s c ! i) = Present v \<longrightarrow>
          (\<exists>v'. doc_deleted (collections s' c ! i) = Present v'))
    \<and> (\<forall>d\<in>set (collections (snd (Queue_clean q fault s')) c). d \<in> set (collections s' c))"
proof -
  have exists: "field_exists f \<longleftrightarrow> f \<noteq> Absent" for f :: "stamp field"
    by (cases f) simp_all
  have present: "field_present f \<longleftrightarrow> (\<exists>v. f = Present v)" for f :: "stamp field"
    by (cases f) simp_all
  have "\<forall>d\<in>set (collections (snd (Queue_clean q fault s')) c). d \<in> set (collections s' c)"
    by (cases fault) (simp_all add: Queue_clean_def Let_def deleteMany_def)
  with keptD [OF run_kept [OF assms(1), of c] assms(2)] show ?thesis
    unfolding exists present by blast
qed

theorem deleted_never_cleared_witness:
  "\<exists>s'. run legacy_calls legacy_store = Some s'
      \<and> 2 < length (collections s' ''jobs'')
      \<and> doc_id (collections s' ''jobs'' ! 2) = 2
      \<and> (\<exists>v'. doc_deleted (collections s' ''jobs'' ! 2) = Present v')"
proof -
  have "run legacy_calls legacy_store \<noteq> None"
    by code_simp
  then obtain s' where ran: "run legacy_calls legacy_store = Some s'"
    by blast
  have before: "2 < length (collections legacy_store ''jobs'')"
    "doc_deleted (collections legacy_store ''jobs'' ! 2) = Present (Text ''2014-01-02'')"
    "doc_id (collections legacy_store ''jobs'' ! 2) = 2"
    by (simp_all add: legacy_store_def legacy_doc_def)
  from deleted_never_cleared [OF ran before(1), of jobs None] before(2,3) ran
  show ?thesis by simp
qed

end
